theory Spec2Isabelle
  imports Main "HOL-Library.Sublist" "HOL-Library.AList"
begin

section \<open>Strings and paths\<close>

text \<open>
  The build script of \<^verbatim>\<open>src/scripts/build.tsx\<close> is glue around the file system, a module
  compiler and a renderer. Paths are strings relative to the working directory; the
  functions below are the JavaScript string methods and the POSIX functions of Node's
  \<^verbatim>\<open>path\<close> module that the script calls.
\<close>

type_synonym path = string

text \<open>\<^verbatim>\<open>s.endsWith(t)\<close>.\<close>

definition endsWith :: "string \<Rightarrow> string \<Rightarrow> bool" where
  "endsWith s t = suffix t s"

text \<open>\<^verbatim>\<open>s.indexOf(t)\<close>: the first position at which \<open>t\<close> occurs, \<open>-1\<close> when it does not.\<close>

fun index_from :: "nat \<Rightarrow> string \<Rightarrow> string \<Rightarrow> int" where
  "index_from i [] t = (if t = [] then int i else - 1)"
| "index_from i (c # cs) t =
     (if prefix t (c # cs) then int i else index_from (Suc i) cs t)"

definition indexOf :: "string \<Rightarrow> string \<Rightarrow> int" where
  "indexOf s t = index_from 0 s t"

text \<open>\<^verbatim>\<open>s.slice(a, b)\<close>: a negative index counts from the end, both are clamped to the string.\<close>

definition js_slice :: "string \<Rightarrow> int \<Rightarrow> int \<Rightarrow> string" where
  "js_slice s a b =
     (let n = int (length s);
          from = (if a < 0 then max (n + a) 0 else min a n);
          to = (if b < 0 then max (n + b) 0 else min b n)
      in take (nat (to - from)) (drop (nat from) s))"

text \<open>
  \<^verbatim>\<open>s.trim()\<close> removes the white space and the line terminators of ECMAScript at
  both ends. A file's content is a byte string, decoded as UTF-8 by \<^verbatim>\<open>toString\<close>, so
  each of these characters is its UTF-8 encoding here: tab, line feed, vertical tab, form
  feed, carriage return and space; U+00A0; U+1680; U+2000 to U+200A; U+2028, U+2029 and
  U+202F; U+205F; U+3000; U+FEFF.
\<close>

definition white_space :: "string list" where
  "white_space =
     [[CHR 0x09], [CHR 0x0A], [CHR 0x0B], [CHR 0x0C], [CHR 0x0D], [CHR 0x20],
      [CHR 0xC2, CHR 0xA0],
      [CHR 0xE1, CHR 0x9A, CHR 0x80],
      [CHR 0xE2, CHR 0x80, CHR 0x80], [CHR 0xE2, CHR 0x80, CHR 0x81],
      [CHR 0xE2, CHR 0x80, CHR 0x82], [CHR 0xE2, CHR 0x80, CHR 0x83],
      [CHR 0xE2, CHR 0x80, CHR 0x84], [CHR 0xE2, CHR 0x80, CHR 0x85],
      [CHR 0xE2, CHR 0x80, CHR 0x86], [CHR 0xE2, CHR 0x80, CHR 0x87],
      [CHR 0xE2, CHR 0x80, CHR 0x88], [CHR 0xE2, CHR 0x80, CHR 0x89],
      [CHR 0xE2, CHR 0x80, CHR 0x8A],
      [CHR 0xE2, CHR 0x80, CHR 0xA8], [CHR 0xE2, CHR 0x80, CHR 0xA9],
      [CHR 0xE2, CHR 0x80, CHR 0xAF],
      [CHR 0xE2, CHR 0x81, CHR 0x9F],
      [CHR 0xE3, CHR 0x80, CHR 0x80],
      [CHR 0xEF, CHR 0xBB, CHR 0xBF]]"

text \<open>The length of the white-space character that \<open>s\<close> starts with, \<open>0\<close> when there is none.\<close>

definition ws_len :: "string list \<Rightarrow> string \<Rightarrow> nat" where
  "ws_len ws s = (case find (\<lambda>w. prefix w s) ws of None \<Rightarrow> 0 | Some w \<Rightarrow> length w)"

text \<open>
  \<open>strip_ws ws n s\<close> drops \<open>n\<close> bytes (the rest of a white-space character) and then
  every white-space character that \<open>s\<close> starts with.
\<close>

fun strip_ws :: "string list \<Rightarrow> nat \<Rightarrow> string \<Rightarrow> string" where
  "strip_ws ws n [] = []"
| "strip_ws ws (Suc n) (c # cs) = strip_ws ws n cs"
| "strip_ws ws 0 (c # cs) =
     (case ws_len ws (c # cs) of 0 \<Rightarrow> c # cs | Suc k \<Rightarrow> strip_ws ws k cs)"

definition trim :: "string \<Rightarrow> string" where
  "trim s = rev (strip_ws (map rev white_space) 0 (rev (strip_ws white_space 0 s)))"

text \<open>\<^verbatim>\<open>s.split("/")\<close> and \<^verbatim>\<open>a.join("/")\<close>.\<close>

fun js_split :: "string \<Rightarrow> string list" where
  "js_split [] = [[]]"
| "js_split (c # cs) =
     (if c = CHR ''/'' then [] # js_split cs
      else (case js_split cs of [] \<Rightarrow> [[c]] | s # ss \<Rightarrow> (c # s) # ss))"

fun js_join :: "string list \<Rightarrow> string" where
  "js_join [] = []"
| "js_join [s] = s"
| "js_join (s # t # ss) = s @ CHR ''/'' # js_join (t # ss)"

text \<open>
  \<^verbatim>\<open>path.resolve\<close> and \<^verbatim>\<open>path.join\<close> normalise a path: empty and \<^verbatim>\<open>.\<close> segments go,
  a \<^verbatim>\<open>..\<close> segment removes the segment before it. The result is the path relative to
  the working directory (the empty string is the working directory itself).
\<close>

fun norm_segs :: "string list \<Rightarrow> string list \<Rightarrow> string list" where
  "norm_segs acc [] = rev acc"
| "norm_segs acc (s # ss) =
     (if s = [] \<or> s = ''.'' then norm_segs acc ss
      else if s = ''..'' then norm_segs (tl acc) ss
      else norm_segs (s # acc) ss)"

definition resolve :: "string \<Rightarrow> path" where
  "resolve p = js_join (norm_segs [] (js_split p))"

text \<open>The last portion of a path, trailing separators ignored.\<close>

definition basename :: "string \<Rightarrow> string" where
  "basename p =
     rev (takeWhile (\<lambda>c. c \<noteq> CHR ''/'') (dropWhile (\<lambda>c. c = CHR ''/'') (rev p)))"

text \<open>
  \<^verbatim>\<open>path.extname\<close>: from the last \<^verbatim>\<open>.\<close> of the last portion to its end; empty when
  that portion has no \<^verbatim>\<open>.\<close>, when its only \<^verbatim>\<open>.\<close> is its first character, and for
  \<^verbatim>\<open>..\<close>.
\<close>

definition extname :: "string \<Rightarrow> string" where
  "extname p =
     (let b = basename p;
          e = takeWhile (\<lambda>c. c \<noteq> CHR ''.'') (rev b)
      in if Suc (length e) = length b \<or> b = ''..'' \<or> CHR ''.'' \<notin> set b then []
         else CHR ''.'' # rev e)"

text \<open>
  \<^verbatim>\<open>path.dirname\<close>: the path up to the separator before its last portion; \<^verbatim>\<open>.\<close> or
  \<^verbatim>\<open>/\<close> when there is none.
\<close>

definition dirname :: "string \<Rightarrow> string" where
  "dirname p =
     (if p = [] then ''.''
      else
        (let r = dropWhile (\<lambda>c. c \<noteq> CHR ''/'') (dropWhile (\<lambda>c. c = CHR ''/'') (rev p))
         in if length r \<le> 1 then (if hd p = CHR ''/'' then ''/'' else ''.'')
            else if hd p = CHR ''/'' \<and> length r = 2 then ''//''
            else rev (tl r)))"

section \<open>The file system\<close>

text \<open>
  A file system is a table of regular files (path and content, in listing order) and a
  set of directories. Every operation of Node's \<^verbatim>\<open>fs.promises\<close> that the script calls
  returns either the error it rejects with or its result.
\<close>

datatype error =
    ENOENT path
  | EEXIST path
  | EISDIR path
  | ENOTDIR path
  | ENOTEMPTY path
  | CompileError string
  | ImportError string
  | RenderError string

record fsys =
  files :: "(path \<times> string) list"
  dirs :: "path set"

definition andThen :: "error + 'a \<Rightarrow> ('a \<Rightarrow> error + 'b) \<Rightarrow> error + 'b" where
  "andThen r f = (case r of Inl e \<Rightarrow> Inl e | Inr x \<Rightarrow> f x)"

text \<open>\<open>under d p\<close>: \<open>p\<close> is \<open>d\<close> or lies below the directory \<open>d\<close>.\<close>

definition under :: "path \<Rightarrow> path \<Rightarrow> bool" where
  "under d p = (p = d \<or> prefix (d @ ''/'') p)"

definition parent :: "path \<Rightarrow> path" where
  "parent p = rev (drop 1 (dropWhile (\<lambda>c. c \<noteq> CHR ''/'') (rev p)))"

text \<open>The directories on the way to \<open>p\<close>, and \<open>p\<close> itself.\<close>

definition ancestors :: "path \<Rightarrow> path list" where
  "ancestors p = filter (\<lambda>q. q \<noteq> [] \<and> under q p) (prefixes p)"

definition is_file :: "fsys \<Rightarrow> path \<Rightarrow> bool" where
  "is_file fs p = (map_of (files fs) p \<noteq> None)"

definition is_dir :: "fsys \<Rightarrow> path \<Rightarrow> bool" where
  "is_dir fs p = (p = [] \<or> p \<in> dirs fs)"

definition readFile :: "fsys \<Rightarrow> path \<Rightarrow> error + string" where
  "readFile fs p =
     (case map_of (files fs) p of
        Some c \<Rightarrow> Inr c
      | None \<Rightarrow> Inl (if is_dir fs p then EISDIR p else ENOENT p))"

definition writeFile :: "fsys \<Rightarrow> path \<Rightarrow> string \<Rightarrow> error + fsys" where
  "writeFile fs p c =
     (if is_dir fs p then Inl (EISDIR p)
      else if is_file fs (parent p) then Inl (ENOTDIR p)
      else if \<not> is_dir fs (parent p) then Inl (ENOENT p)
      else Inr (fs\<lparr>files := AList.update p c (files fs)\<rparr>))"

definition copyFile :: "fsys \<Rightarrow> path \<Rightarrow> path \<Rightarrow> error + fsys" where
  "copyFile fs src dst = andThen (readFile fs src) (writeFile fs dst)"

text \<open>\<^verbatim>\<open>mkdir(p, { recursive: true })\<close>: creates \<open>p\<close> and the directories on the way to it.\<close>

definition mkdirp :: "fsys \<Rightarrow> path \<Rightarrow> error + fsys" where
  "mkdirp fs p =
     (case filter (is_file fs) (ancestors p) of
        q # _ \<Rightarrow> Inl (if q = p then EEXIST p else ENOTDIR p)
      | [] \<Rightarrow> Inr (fs\<lparr>dirs := dirs fs \<union> set (ancestors p)\<rparr>))"

text \<open>
  \<^verbatim>\<open>rmdir(p, { recursive: true })\<close>: removes \<open>p\<close> and everything below it; a path that
  does not exist is not an error.
\<close>

definition rmdir_recursive :: "fsys \<Rightarrow> path \<Rightarrow> error + fsys" where
  "rmdir_recursive fs p =
     Inr (fs\<lparr>files := filter (\<lambda>e. \<not> under p (fst e)) (files fs),
             dirs := dirs fs - Collect (under p)\<rparr>)"

text \<open>\<^verbatim>\<open>rmdir(p)\<close>: removes the directory \<open>p\<close>, which has to be empty.\<close>

definition rmdir :: "fsys \<Rightarrow> path \<Rightarrow> error + fsys" where
  "rmdir fs p =
     (if is_file fs p then Inl (ENOTDIR p)
      else if p \<notin> dirs fs then Inl (ENOENT p)
      else if list_ex (\<lambda>e. under p (fst e)) (files fs)
            \<or> (\<exists>d \<in> dirs fs. under p d \<and> d \<noteq> p)
        then Inl (ENOTEMPTY p)
      else Inr (fs\<lparr>dirs := dirs fs - {p}\<rparr>))"

text \<open>\<^verbatim>\<open>(await stat(p)).isDirectory()\<close>.\<close>

definition stat_isDirectory :: "fsys \<Rightarrow> path \<Rightarrow> error + bool" where
  "stat_isDirectory fs p =
     (if is_file fs p then Inr False
      else if is_dir fs p then Inr True
      else Inl (ENOENT p))"

text \<open>
  \<^verbatim>\<open>readDir\<close> of the script (lines 165 to 174): every regular file below \<open>dir\<close>. The
  script recurses into the sub-directories and flattens the result; the table of files
  holds the files of all levels, so the listing is its part below \<open>dir\<close>.
\<close>

definition readDir :: "fsys \<Rightarrow> path \<Rightarrow> error + path list" where
  "readDir fs dir =
     (if is_file fs dir then Inl (ENOTDIR dir)
      else if \<not> is_dir fs dir then Inl (ENOENT dir)
      else Inr (filter (\<lambda>q. under dir q \<and> q \<noteq> dir) (map fst (files fs))))"

text \<open>
  \<^verbatim>\<open>Promise.all\<close> over a list of tasks: the tasks are independent of each other, and
  are run here in the order of the list; the first rejection is the rejection of the
  whole.
\<close>

fun all_seq :: "('a \<Rightarrow> fsys \<Rightarrow> error + fsys) \<Rightarrow> 'a list \<Rightarrow> fsys \<Rightarrow> error + fsys" where
  "all_seq f [] fs = Inr fs"
| "all_seq f (x # xs) fs = andThen (f x fs) (all_seq f xs)"

fun all_map :: "('a \<Rightarrow> error + 'b) \<Rightarrow> 'a list \<Rightarrow> error + 'b list" where
  "all_map f [] = Inr []"
| "all_map f (x # xs) =
     andThen (f x) (\<lambda>y. andThen (all_map f xs) (\<lambda>ys. Inr (y # ys)))"

section \<open>The collaborators\<close>

text \<open>
  The module compiler (\<^verbatim>\<open>rollup\<close> with its plugins), the dynamic \<^verbatim>\<open>import\<close> of a
  compiled page, the document shell \<^verbatim>\<open>Document\<close> and the renderer \<^verbatim>\<open>render\<close> are
  not part of the script: they are parameters. No step of the build writes to the source
  tree, so within a run the compiler is a fixed function of its configuration (target
  syntax level, stylesheet plugins, entry module); it either rejects or yields a script
  and, when the entry imports styles, an extracted stylesheet. \<open>'c\<close> is the type of page
  components, \<open>'v\<close> the type of virtual-DOM trees.
\<close>

datatype target = ES2018 | ES5

datatype plugins = GlobalPlugins | PagePlugins

record chunk =
  script :: string
  css :: "string option"

record ('c, 'v) env =
  rollup :: "target \<Rightarrow> plugins \<Rightarrow> path \<Rightarrow> error + chunk"
  import_page :: "path \<Rightarrow> string \<Rightarrow> error + 'c"
  Document :: "('v \<Rightarrow> bool \<Rightarrow> error + string) \<Rightarrow> bool \<Rightarrow> string list \<Rightarrow> 'c \<Rightarrow> 'v"
  render :: "'v \<Rightarrow> bool \<Rightarrow> error + string"

text \<open>
  \<^verbatim>\<open>bundle.write\<close>: the script goes to the output file, the extracted stylesheet next
  to it under the same name with the extension \<^verbatim>\<open>.css\<close>; missing directories are
  created. With the option \<^verbatim>\<open>dir\<close> the output file is named after the entry module.
\<close>

definition strip_ext :: "string \<Rightarrow> string" where
  "strip_ext p = take (length p - length (extname p)) p"

definition write_chunk :: "fsys \<Rightarrow> path \<Rightarrow> chunk \<Rightarrow> error + fsys" where
  "write_chunk fs file ch =
     andThen (mkdirp fs (parent file)) (\<lambda>fs1.
     andThen (writeFile fs1 file (script ch)) (\<lambda>fs2.
       case css ch of
         None \<Rightarrow> Inr fs2
       | Some s \<Rightarrow> writeFile fs2 (strip_ext file @ ''.css'') s))"

definition bundle_write_dir :: "fsys \<Rightarrow> string \<Rightarrow> path \<Rightarrow> chunk \<Rightarrow> error + fsys" where
  "bundle_write_dir fs dir input ch =
     write_chunk fs (resolve (dir @ ''/'' @ strip_ext (basename input) @ ''.js'')) ch"

definition bundle_write_file :: "fsys \<Rightarrow> string \<Rightarrow> chunk \<Rightarrow> error + fsys" where
  "bundle_write_file fs file ch = write_chunk fs (resolve file) ch"

text \<open>
  \<^verbatim>\<open>glob(["src/pages/**/*.tsx"])\<close>: the files below the pages root with the extension
  \<^verbatim>\<open>.tsx\<close>; the pattern does not match a path segment that starts with a dot.
\<close>

definition is_page :: "path \<Rightarrow> bool" where
  "is_page p =
     (prefix ''src/pages/'' p \<and> endsWith p ''.tsx''
      \<and> \<not> list_ex (prefix ''.'') (js_split (drop (length ''src/pages/'') p)))"

definition glob_pages :: "fsys \<Rightarrow> path list" where
  "glob_pages fs = filter is_page (map fst (files fs))"

section \<open>The build script\<close>

datatype log_entry = Log_text string | Log_error error

definition OUTPUT_DIR :: string where
  "OUTPUT_DIR = ''./.tmp/microsite''"

text \<open>
  \<^verbatim>\<open>writeGlobal\<close> (lines 91 to 128). Both calls of \<^verbatim>\<open>rollup\<close> are awaited before the
  \<^verbatim>\<open>try\<close> block, and the promise of the two writes is returned from inside it without
  being awaited: a rejection of any of the four is the rejection of \<^verbatim>\<open>writeGlobal\<close>.
\<close>

definition writeGlobal :: "('c, 'v) env \<Rightarrow> fsys \<Rightarrow> error + fsys" where
  "writeGlobal env fs =
     andThen (rollup env ES2018 GlobalPlugins ''src/global.ts'') (\<lambda>global.
     andThen (rollup env ES5 GlobalPlugins ''src/global.ts'') (\<lambda>legacy.
     andThen (bundle_write_dir fs OUTPUT_DIR ''src/global.ts'' global) (\<lambda>fs1.
       bundle_write_file fs1 (OUTPUT_DIR @ ''/'' @ ''global.legacy.js'') legacy)))"

text \<open>
  \<^verbatim>\<open>writePages\<close> (lines 130 to 163). The compilations are awaited inside the \<^verbatim>\<open>try\<close>
  block: when one rejects, the error is logged and \<^verbatim>\<open>writePages\<close> resolves with
  nothing written. The promise of the writes is returned without being awaited.
\<close>

definition replace_src :: "string \<Rightarrow> string" where
  "replace_src p = (if prefix ''src'' p then OUTPUT_DIR @ drop (length ''src'') p else p)"

definition page_out_dir :: "path \<Rightarrow> string" where
  "page_out_dir page = js_join (butlast (js_split (replace_src page)))"

text \<open>The write of one page's bundle: \<open>bp\<close> is the bundle and the page it was compiled from.\<close>

definition write_bundle :: "chunk \<times> path \<Rightarrow> fsys \<Rightarrow> error + fsys" where
  "write_bundle bp fs = bundle_write_dir fs (page_out_dir (snd bp)) (snd bp) (fst bp)"

definition writePages :: "('c, 'v) env \<Rightarrow> fsys \<Rightarrow> error + fsys \<times> log_entry list" where
  "writePages env fs =
     (let pages = glob_pages fs in
      case all_map (rollup env ES2018 PagePlugins) pages of
        Inl e \<Rightarrow> Inr (fs, [Log_error e])
      | Inr bundles \<Rightarrow>
          andThen (all_seq write_bundle (zip bundles pages) fs) (\<lambda>fs1. Inr (fs1, [])))"

text \<open>\<^verbatim>\<open>prepare\<close> (lines 176 to 192).\<close>

definition prepare :: "fsys \<Rightarrow> error + fsys" where
  "prepare fs =
     (let paths = [''./dist'', ''./.tmp/microsite''] in
      andThen (all_seq (\<lambda>p s. rmdir_recursive s (resolve p)) paths fs) (\<lambda>fs1.
      andThen (all_seq (\<lambda>p s. mkdirp s (resolve p)) paths fs1) (\<lambda>fs2.
      andThen (stat_isDirectory fs2 (resolve ''./src/public'')) (\<lambda>isDirectory.
        if isDirectory then
          andThen (readDir fs2 (resolve ''./src/public'')) (\<lambda>fls.
            all_seq (\<lambda>file s. copyFile s (resolve file)
                       (resolve (''./dist/'' @ drop (length ''src/public/'') file)))
              fls fs2)
        else Inr fs2))))"

text \<open>\<^verbatim>\<open>cleanup\<close> (lines 194 to 200).\<close>

definition cleanup :: "fsys \<Rightarrow> error + fsys" where
  "cleanup fs =
     (let paths = [''./.tmp/microsite''] in
      andThen (all_seq (\<lambda>p s. rmdir_recursive s (resolve p)) paths fs) (\<lambda>fs1.
      andThen (readDir fs1 (resolve ''./.tmp'')) (\<lambda>fls.
        if length fls = 0 then rmdir fs1 (resolve ''./.tmp'') else Inr fs1)))"

text \<open>\<^verbatim>\<open>build\<close> (lines 202 to 285), in its steps.\<close>

definition getName :: "path \<Rightarrow> string" where
  "getName f =
     js_slice f (indexOf f ''pages/'' + int (length ''pages/'') - 1)
       (int (length (extname f)) * (- 1))"

definition copy_global_scripts :: "fsys \<Rightarrow> error + fsys" where
  "copy_global_scripts fs =
     andThen (copyFile fs (resolve ''./.tmp/microsite/global.js'') (resolve ''dist/index.js''))
       (\<lambda>fs1. copyFile fs1 (resolve ''./.tmp/microsite/global.legacy.js'')
                 (resolve ''dist/index.legacy.js''))"

definition read_styles :: "fsys \<Rightarrow> path list \<Rightarrow> error + (string \<times> string) list" where
  "read_styles fs fls =
     all_map (\<lambda>f. andThen (readFile fs f) (\<lambda>buff. Inr (getName f, buff)))
       (filter (\<lambda>f. endsWith f ''.css'') fls)"

definition import_pages ::
  "('c, 'v) env \<Rightarrow> fsys \<Rightarrow> path list \<Rightarrow> error + (string \<times> 'c) list" where
  "import_pages env fs fls =
     all_map (\<lambda>f. andThen (readFile fs f) (\<lambda>src.
                andThen (import_page env f src) (\<lambda>Page. Inr (getName f, Page))))
       (filter (\<lambda>f. endsWith f ''.js'') fls)"

text \<open>
  \<^verbatim>\<open>[globalStyle, style].filter((v) => v)\<close>: the filter keeps what is truthy, so it
  drops \<^verbatim>\<open>null\<close> and the empty string.
\<close>

definition truthy :: "string option \<Rightarrow> bool" where
  "truthy v = (case v of None \<Rightarrow> False | Some s \<Rightarrow> s \<noteq> [])"

definition page_styles :: "string \<Rightarrow> string option \<Rightarrow> string list" where
  "page_styles globalStyle style =
     concat (map (\<lambda>v. case v of None \<Rightarrow> [] | Some s \<Rightarrow> [s])
       (filter truthy [Some globalStyle, style]))"

definition DOCTYPE :: string where
  "DOCTYPE = ''<!DOCTYPE html>'' @ [CHR 0x0A]"

text \<open>
  Lines 256 to 268: one page is rendered inside the document shell, which is given the
  renderer, the flag and the stylesheets; the renderer is asked to pretty-print.
\<close>

definition render_page ::
  "('c, 'v) env \<Rightarrow> bool \<Rightarrow> string \<Rightarrow> (string \<times> string) list \<Rightarrow> string \<times> 'c \<Rightarrow> error + string" where
  "render_page env hasGlobalScript globalStyle styles page =
     andThen
       (render env
          (Document env (render env) hasGlobalScript
             (page_styles globalStyle (map_of styles (fst page))) (snd page))
          True)
       (\<lambda>html. Inr (DOCTYPE @ html))"

text \<open>
  The loop of lines 248 to 275: the first page whose rendering throws ends the loop
  with its name and the exception.
\<close>

fun render_pages ::
  "('c, 'v) env \<Rightarrow> bool \<Rightarrow> string \<Rightarrow> (string \<times> string) list \<Rightarrow> (string \<times> 'c) list \<Rightarrow>
     (string \<times> string) list \<Rightarrow> (string \<times> error) + (string \<times> string) list" where
  "render_pages env hasGlobalScript globalStyle styles [] output = Inr output"
| "render_pages env hasGlobalScript globalStyle styles (page # pages) output =
     (case render_page env hasGlobalScript globalStyle styles page of
        Inl e \<Rightarrow> Inl (fst page, e)
      | Inr content \<Rightarrow>
          render_pages env hasGlobalScript globalStyle styles pages
            (output @ [(fst page, content)]))"

text \<open>Lines 278 to 282: the write of one rendered page, \<open>out\<close> its name and content.\<close>

definition write_page :: "string \<times> string \<Rightarrow> fsys \<Rightarrow> error + fsys" where
  "write_page out fs =
     andThen (mkdirp fs (resolve (''./dist/'' @ dirname (fst out)))) (\<lambda>fs1.
       writeFile fs1 (resolve (''./dist/'' @ fst out @ ''.html'')) (snd out))"

text \<open>
  The result of a run: the promise of \<^verbatim>\<open>build\<close> rejects, or \<^verbatim>\<open>build\<close> returns from
  the \<^verbatim>\<open>catch\<close> clause of the rendering loop, or it runs to its end. The last two carry
  the file system left behind and what was logged.
\<close>

datatype outcome =
    Rejected error
  | Aborted fsys "log_entry list"
  | Done fsys "log_entry list"

definition await :: "error + 'a \<Rightarrow> ('a \<Rightarrow> outcome) \<Rightarrow> outcome" where
  "await r k = (case r of Inl e \<Rightarrow> Rejected e | Inr x \<Rightarrow> k x)"

text \<open>
  Lines 206 to 245: the global stylesheet and script are read from the staging area, the
  global scripts are copied when there is one, and the staged pages and stylesheets are
  loaded.
\<close>

definition load_stage ::
  "('c, 'v) env \<Rightarrow> fsys \<Rightarrow>
     error + string \<times> bool \<times> fsys \<times> (string \<times> string) list \<times> (string \<times> 'c) list" where
  "load_stage env fs =
     andThen (readFile fs (resolve ''./.tmp/microsite/global.css'')) (\<lambda>globalStyle.
     andThen (readFile fs (resolve ''./.tmp/microsite/global.js'')) (\<lambda>v.
       let hasGlobalScript = (trim v \<noteq> []) in
     andThen (if hasGlobalScript then copy_global_scripts fs else Inr fs) (\<lambda>fs1.
     andThen (readDir fs1 (resolve ''./.tmp/microsite/pages'')) (\<lambda>fls.
     andThen (read_styles fs1 fls) (\<lambda>styles.
     andThen (import_pages env fs1 fls) (\<lambda>pages.
       Inr (globalStyle, hasGlobalScript, fs1, styles, pages)))))))"

text \<open>Lines 247 to 285: the pages are rendered, written, and the staging area removed.\<close>

definition render_stage :: "('c, 'v) env \<Rightarrow> fsys \<Rightarrow> log_entry list \<Rightarrow> outcome" where
  "render_stage env fs log =
     await (load_stage env fs) (\<lambda>(globalStyle, hasGlobalScript, fs1, styles, pages).
       case render_pages env hasGlobalScript globalStyle styles pages [] of
         Inl (name, e) \<Rightarrow>
           Aborted fs1 (log @ [Log_text (''Error building '' @ name), Log_error e])
       | Inr output \<Rightarrow>
           await (all_seq write_page output fs1) (\<lambda>fs2.
           await (cleanup fs2) (\<lambda>fs3. Done fs3 log)))"

definition compile_stage ::
  "('c, 'v) env \<Rightarrow> fsys \<Rightarrow> error + fsys \<times> log_entry list" where
  "compile_stage env fs = andThen (writeGlobal env fs) (writePages env)"

definition build :: "('c, 'v) env \<Rightarrow> fsys \<Rightarrow> outcome" where
  "build env fs =
     await (prepare fs) (\<lambda>fs1.
     await (compile_stage env fs1) (\<lambda>(fs2, log).
       render_stage env fs2 log))"

section \<open>Staged pages\<close>

text \<open>
  The file that \<^verbatim>\<open>writePages\<close> stages the script of a page under, the pages root of
  the staging area, and the relative paths whose segments are neither empty nor start
  with a dot (the form of the paths below the pages root).
\<close>

definition staged_script :: "path \<Rightarrow> path" where
  "staged_script page =
     resolve (page_out_dir page @ ''/'' @ strip_ext (basename page) @ ''.js'')"

definition pages_root :: string where
  "pages_root = ''.tmp/microsite/pages/''"

definition tidy :: "string \<Rightarrow> bool" where
  "tidy r = list_all (\<lambda>s. s \<noteq> [] \<and> \<not> prefix ''.'' s) (js_split r)"

text \<open>
  The paths of a file table are normalised when \<^verbatim>\<open>path.resolve\<close> leaves each of them
  as it is. In the staging area built by a run, every file below the pages root is the
  script or the stylesheet staged for one of the pages.
\<close>

definition wf_paths :: "fsys \<Rightarrow> bool" where
  "wf_paths fs = list_all (\<lambda>e. resolve (fst e) = fst e) (files fs)"

definition staged_from :: "path list \<Rightarrow> fsys \<Rightarrow> bool" where
  "staged_from pages fs =
     list_all
       (\<lambda>e. prefix pages_root (fst e) \<longrightarrow>
          list_ex (\<lambda>page. is_page page
             \<and> (fst e = staged_script page \<or> fst e = strip_ext (staged_script page) @ ''.css''))
            pages)
       (files fs)"

text \<open>The paths outside the output directory and the staging directory.\<close>

definition kept :: "path \<Rightarrow> bool" where
  "kept p = (\<not> under ''dist'' p \<and> \<not> under ''.tmp/microsite'' p)"

text \<open>Two file systems hold the same files, in the same order, at the paths that satisfy \<open>P\<close>.\<close>

definition same_files :: "(path \<Rightarrow> bool) \<Rightarrow> fsys \<Rightarrow> fsys \<Rightarrow> bool" where
  "same_files P fs fs' =
     (filter (\<lambda>e. P (fst e)) (files fs') = filter (\<lambda>e. P (fst e)) (files fs))"

text \<open>
  The directories of the source tree: those outside the output directory and the
  staging directory, the directory \<^verbatim>\<open>.tmp\<close> set aside.
\<close>

definition source_dirs :: "fsys \<Rightarrow> path set" where
  "source_dirs fs =
     dirs fs - Collect (under ''dist'') - Collect (under ''.tmp/microsite'') - {''.tmp''}"

section \<open>A sample site\<close>

text \<open>
  A source tree with a global entry, two pages, one static asset and a stale output
  directory, and collaborators to run the build on it: the compiler's result for the
  global entry and the page whose rendering throws are parameters. A page component is
  the text of its compiled script.
\<close>

definition site :: fsys where
  "site =
     \<lparr>files = [(''src/global.ts'', ''import global.css''),
               (''src/pages/index.tsx'', ''export const Page = Home''),
               (''src/pages/blog/post.tsx'', ''export const Page = Post''),
               (''src/public/favicon.ico'', ''ICO''),
               (''dist/old.html'', ''stale'')],
      dirs = {''src'', ''src/pages'', ''src/pages/blog'', ''src/public'', ''dist''}\<rparr>"

definition site_rollup :: "error + chunk \<Rightarrow> target \<Rightarrow> plugins \<Rightarrow> path \<Rightarrow> error + chunk" where
  "site_rollup global t pl input =
     (if input = ''src/global.ts'' then
        (case global of
           Inl e \<Rightarrow> Inl e
         | Inr ch \<Rightarrow> Inr (if t = ES5 then ch\<lparr>script := script ch @ script ch\<rparr> else ch))
      else Inr \<lparr>script = drop (length ''src/pages/'') input,
                css = (if input = ''src/pages/index.tsx'' then Some ''.a{}'' else None)\<rparr>)"

definition site_render :: "string \<Rightarrow> bool \<times> string list \<times> string \<Rightarrow> bool \<Rightarrow> error + string" where
  "site_render bad v pretty =
     (case v of (hasScripts, styles, Page) \<Rightarrow>
        if Page = bad then Inl (RenderError Page)
        else Inr ((if hasScripts then ''<script/>'' else [])
                  @ concat (map (\<lambda>s. ''<style>'' @ s @ ''</style>'') styles)
                  @ ''<body>'' @ Page @ (if pretty then [CHR 0x0A] else [])))"

definition site_env ::
  "error + chunk \<Rightarrow> string \<Rightarrow> (string, bool \<times> string list \<times> string) env" where
  "site_env global bad =
     \<lparr>rollup = site_rollup global,
      import_page = (\<lambda>f src. Inr src),
      Document = (\<lambda>render hasScripts styles Page. (hasScripts, styles, Page)),
      render = site_render bad\<rparr>"

definition global_chunk :: chunk where
  "global_chunk = \<lparr>script = ''go()'', css = Some ''body{color:red}''\<rparr>"

definition site_prepared :: fsys where
  "site_prepared =
     \<lparr>files = [(''src/global.ts'', ''import global.css''),
               (''src/pages/index.tsx'', ''export const Page = Home''),
               (''src/pages/blog/post.tsx'', ''export const Page = Post''),
               (''src/public/favicon.ico'', ''ICO''),
               (''dist/favicon.ico'', ''ICO'')],
      dirs = {''dist'', ''src'', ''src/pages'', ''src/pages/blog'', ''src/public'', ''.tmp'',
              ''.tmp/microsite''}\<rparr>"

definition site_staged :: fsys where
  "site_staged =
     \<lparr>files = [(''src/global.ts'', ''import global.css''),
               (''src/pages/index.tsx'', ''export const Page = Home''),
               (''src/pages/blog/post.tsx'', ''export const Page = Post''),
               (''src/public/favicon.ico'', ''ICO''),
               (''dist/favicon.ico'', ''ICO''),
               (''.tmp/microsite/global.js'', ''go()''),
               (''.tmp/microsite/global.css'', ''body{color:red}''),
               (''.tmp/microsite/global.legacy.js'', ''go()go()''),
               (''.tmp/microsite/global.legacy.css'', ''body{color:red}''),
               (''.tmp/microsite/pages/index.js'', ''index.tsx''),
               (''.tmp/microsite/pages/index.css'', ''.a{}''),
               (''.tmp/microsite/pages/blog/post.js'', ''blog/post.tsx'')],
      dirs = {''dist'', ''src'', ''src/pages'', ''src/pages/blog'', ''src/public'', ''.tmp'',
              ''.tmp/microsite'', ''.tmp/microsite/pages'', ''.tmp/microsite/pages/blog''}\<rparr>"

definition site_copied :: fsys where
  "site_copied =
     site_staged\<lparr>files := files site_staged
       @ [(''dist/index.js'', ''go()''), (''dist/index.legacy.js'', ''go()go()'')]\<rparr>"

definition site_styles :: "(string \<times> string) list" where
  "site_styles = [(''/index'', ''.a{}'')]"

definition site_pages :: "(string \<times> string) list" where
  "site_pages = [(''/index'', ''index.tsx''), (''/blog/post'', ''blog/post.tsx'')]"

definition site_output :: "(string \<times> string) list" where
  "site_output =
     [(''/index'', DOCTYPE @ ''<script/><style>body{color:red}</style><style>.a{}</style><body>index.tsx'' @ [CHR 0x0A]),
      (''/blog/post'', DOCTYPE @ ''<script/><style>body{color:red}</style><body>blog/post.tsx'' @ [CHR 0x0A])]"

definition site_written :: fsys where
  "site_written =
     \<lparr>files = files site_copied
         @ [(''dist/index.html'',
             DOCTYPE @ ''<script/><style>body{color:red}</style><style>.a{}</style><body>index.tsx'' @ [CHR 0x0A]),
            (''dist/blog/post.html'',
             DOCTYPE @ ''<script/><style>body{color:red}</style><body>blog/post.tsx'' @ [CHR 0x0A])],
      dirs = insert ''dist/blog'' (dirs site_copied)\<rparr>"

definition site_built :: fsys where
  "site_built =
     \<lparr>files = [(''src/global.ts'', ''import global.css''),
               (''src/pages/index.tsx'', ''export const Page = Home''),
               (''src/pages/blog/post.tsx'', ''export const Page = Post''),
               (''src/public/favicon.ico'', ''ICO''),
               (''dist/favicon.ico'', ''ICO''),
               (''dist/index.js'', ''go()''),
               (''dist/index.legacy.js'', ''go()go()''),
               (''dist/index.html'',
                DOCTYPE @ ''<script/><style>body{color:red}</style><style>.a{}</style><body>index.tsx'' @ [CHR 0x0A]),
               (''dist/blog/post.html'',
                DOCTYPE @ ''<script/><style>body{color:red}</style><body>blog/post.tsx'' @ [CHR 0x0A])],
      dirs = {''src'', ''src/pages'', ''src/pages/blog'', ''src/public'', ''dist'',
              ''dist/blog''}\<rparr>"

definition good_env :: "(string, bool \<times> string list \<times> string) env" where
  "good_env = site_env (Inr global_chunk) []"

text \<open>The same site without a directory of static assets, and with a nested one.\<close>

definition site_no_public :: fsys where
  "site_no_public =
     \<lparr>files = [(''src/global.ts'', ''import global.css''),
               (''src/pages/index.tsx'', ''export const Page = Home'')],
      dirs = {''src'', ''src/pages''}\<rparr>"

definition site_nested_public :: fsys where
  "site_nested_public =
     \<lparr>files = [(''src/global.ts'', ''import global.css''),
               (''src/pages/index.tsx'', ''export const Page = Home''),
               (''src/public/img/logo.png'', ''PNG'')],
      dirs = {''src'', ''src/pages'', ''src/public'', ''src/public/img''}\<rparr>"

text \<open>A global entry that imports no stylesheet, and the staging area it leads to.\<close>

definition script_only_env :: "(string, bool \<times> string list \<times> string) env" where
  "script_only_env = site_env (Inr \<lparr>script = ''go()'', css = None\<rparr>) []"


text \<open>A global entry that does not compile.\<close>

definition broken_global_env :: "(string, bool \<times> string list \<times> string) env" where
  "broken_global_env = site_env (Inl (CompileError ''src/global.ts'')) []"

text \<open>The staging area of the sample site with an empty global stylesheet.\<close>

definition site_staged_blank_style :: fsys where
  "site_staged_blank_style =
     site_staged\<lparr>files := AList.update ''.tmp/microsite/global.css'' [] (files site_staged)\<rparr>"

definition site_copied_blank_style :: fsys where
  "site_copied_blank_style =
     site_staged_blank_style\<lparr>files := files site_staged_blank_style
       @ [(''dist/index.js'', ''go()''), (''dist/index.legacy.js'', ''go()go()'')]\<rparr>"




text \<open>A file system with one more file, kept by some other tool below \<^verbatim>\<open>.tmp\<close>.\<close>

definition with_cache :: "fsys \<Rightarrow> fsys" where
  "with_cache fs =
     fs\<lparr>files := (''.tmp/cache/data'', ''cached'') # files fs,
        dirs := insert ''.tmp'' (insert ''.tmp/cache'' (dirs fs))\<rparr>"

text \<open>The sample site's collaborators with a renderer that throws on the page \<^verbatim>\<open>blog/post\<close>.\<close>

definition bad_page_env :: "(string, bool \<times> string list \<times> string) env" where
  "bad_page_env = site_env (Inr global_chunk) ''blog/post.tsx''"





section \<open>Basic facts\<close>

lemma andThen_simps [simp]: "andThen (Inl e) f = Inl e" "andThen (Inr x) f = f x"
  by (simp_all add: andThen_def)

lemma await_simps [simp]: "await (Inl e) k = Rejected e" "await (Inr x) k = k x"
  by (simp_all add: await_def)

lemma andThen_Inr_iff: "andThen r f = Inr y \<longleftrightarrow> (\<exists>x. r = Inr x \<and> f x = Inr y)"
  by (cases r) simp_all

lemma andThen_Inl_iff:
  "andThen r f = Inl e \<longleftrightarrow> r = Inl e \<or> (\<exists>x. r = Inr x \<and> f x = Inl e)"
  by (cases r) simp_all

lemma await_Done_iff: "await r k = Done s l \<longleftrightarrow> (\<exists>x. r = Inr x \<and> k x = Done s l)"
  by (cases r) simp_all

lemma await_Aborted_iff: "await r k = Aborted s l \<longleftrightarrow> (\<exists>x. r = Inr x \<and> k x = Aborted s l)"
  by (cases r) simp_all

lemma await_Rejected_iff:
  "await r k = Rejected e \<longleftrightarrow> r = Inl e \<or> (\<exists>x. r = Inr x \<and> k x = Rejected e)"
  by (cases r) simp_all

subsection \<open>The rendering loop\<close>

lemma render_pages_Inr:
  "render_pages env hs gs st pages out = Inr output \<Longrightarrow>
     \<exists>new. output = out @ new \<and>
       list_all2 (\<lambda>page p. fst p = fst page \<and> render_page env hs gs st page = Inr (snd p)) pages new"
proof (induction pages arbitrary: out)
  case Nil
  then show ?case by simp
next
  case (Cons page pages)
  from Cons.prems obtain content where c: "render_page env hs gs st page = Inr content"
    and r: "render_pages env hs gs st pages (out @ [(fst page, content)]) = Inr output"
    by (auto split: sum.splits)
  from Cons.IH [OF r] obtain new where
    "output = (out @ [(fst page, content)]) @ new"
    "list_all2 (\<lambda>page p. fst p = fst page \<and> render_page env hs gs st page = Inr (snd p)) pages new"
    by blast
  with c show ?case
    by (intro exI [of _ "(fst page, content) # new"]) simp
qed

lemma render_pages_Inl:
  "render_pages env hs gs st pages out = Inl (name, e) \<Longrightarrow>
     \<exists>page \<in> set pages. fst page = name \<and> render_page env hs gs st page = Inl e"
  by (induction pages arbitrary: out) (auto split: sum.splits)

lemma render_pages_throws:
  "page \<in> set pages \<Longrightarrow> render_page env hs gs st page = Inl e \<Longrightarrow>
     \<exists>name e'. render_pages env hs gs st pages out = Inl (name, e')"
  by (induction pages arbitrary: out) (auto split: sum.splits)

subsection \<open>The outcomes of a run\<close>

lemma render_stage_Done_iff:
  "render_stage env fs log = Done fs' log' \<longleftrightarrow>
     log' = log \<and>
     (\<exists>gs hs fs3 st pages output fs4.
        load_stage env fs = Inr (gs, hs, fs3, st, pages) \<and>
        render_pages env hs gs st pages [] = Inr output \<and>
        all_seq write_page output fs3 = Inr fs4 \<and> cleanup fs4 = Inr fs')"
proof (cases "load_stage env fs")
  case (Inl e)
  then show ?thesis by (simp add: render_stage_def)
next
  case (Inr x)
  obtain gs hs fs3 st pages where x: "x = (gs, hs, fs3, st, pages)"
    by (cases x) auto
  show ?thesis
  proof (cases "render_pages env hs gs st pages []")
    case (Inl ne)
    then show ?thesis using Inr x by (cases ne) (simp add: render_stage_def)
  next
    case r: (Inr outp)
    show ?thesis using Inr x r
      by (auto simp add: render_stage_def await_Done_iff)
  qed
qed

lemma render_stage_Aborted_iff:
  "render_stage env fs log = Aborted fs' log' \<longleftrightarrow>
     (\<exists>gs hs st pages name e.
        load_stage env fs = Inr (gs, hs, fs', st, pages) \<and>
        render_pages env hs gs st pages [] = Inl (name, e) \<and>
        log' = log @ [Log_text (''Error building '' @ name), Log_error e])"
proof (cases "load_stage env fs")
  case (Inl e)
  then show ?thesis by (simp add: render_stage_def)
next
  case (Inr x)
  obtain gs hs fs3 st pages where x: "x = (gs, hs, fs3, st, pages)"
    by (cases x) auto
  show ?thesis
  proof (cases "render_pages env hs gs st pages []")
    case (Inl ne)
    then show ?thesis using Inr x by (cases ne) (auto simp add: render_stage_def)
  next
    case r: (Inr outp)
    show ?thesis using Inr x r
      by (auto simp add: render_stage_def await_Aborted_iff)
  qed
qed

lemma build_unfold:
  "build env fs = out \<longleftrightarrow>
     (case prepare fs of
        Inl e \<Rightarrow> out = Rejected e
      | Inr fs1 \<Rightarrow>
          (case compile_stage env fs1 of
             Inl e \<Rightarrow> out = Rejected e
           | Inr (fs2, log) \<Rightarrow> out = render_stage env fs2 log))"
  unfolding build_def by (auto split: sum.splits prod.splits)

lemma build_Done_iff:
  "build env fs = Done fs' log \<longleftrightarrow>
     (\<exists>fs1 fs2 gs hs fs3 st pages output fs4.
        prepare fs = Inr fs1 \<and> compile_stage env fs1 = Inr (fs2, log) \<and>
        load_stage env fs2 = Inr (gs, hs, fs3, st, pages) \<and>
        render_pages env hs gs st pages [] = Inr output \<and>
        all_seq write_page output fs3 = Inr fs4 \<and> cleanup fs4 = Inr fs')"
proof -
  have "build env fs = Done fs' log \<longleftrightarrow>
      (\<exists>fs1 fs2 l. prepare fs = Inr fs1 \<and> compile_stage env fs1 = Inr (fs2, l) \<and>
         render_stage env fs2 l = Done fs' log)"
    unfolding build_unfold by (auto split: sum.splits prod.splits)
  then show ?thesis
    unfolding render_stage_Done_iff by blast
qed

lemma build_Aborted_iff:
  "build env fs = Aborted fs' log' \<longleftrightarrow>
     (\<exists>fs1 fs2 log gs hs st pages name e.
        prepare fs = Inr fs1 \<and> compile_stage env fs1 = Inr (fs2, log) \<and>
        load_stage env fs2 = Inr (gs, hs, fs', st, pages) \<and>
        render_pages env hs gs st pages [] = Inl (name, e) \<and>
        log' = log @ [Log_text (''Error building '' @ name), Log_error e])"
proof -
  have "build env fs = Aborted fs' log' \<longleftrightarrow>
      (\<exists>fs1 fs2 l. prepare fs = Inr fs1 \<and> compile_stage env fs1 = Inr (fs2, l) \<and>
         render_stage env fs2 l = Aborted fs' log')"
    unfolding build_unfold by (auto split: sum.splits prod.splits)
  then show ?thesis
    unfolding render_stage_Aborted_iff by blast
qed

lemma load_stage_Inr_iff:
  "load_stage env fs = Inr (gs, hs, fs1, st, pages) \<longleftrightarrow>
     readFile fs ''.tmp/microsite/global.css'' = Inr gs \<and>
     (\<exists>v. readFile fs ''.tmp/microsite/global.js'' = Inr v \<and> hs = (trim v \<noteq> [])) \<and>
     (if hs then copy_global_scripts fs = Inr fs1 else fs1 = fs) \<and>
     (\<exists>fls. readDir fs1 ''.tmp/microsite/pages'' = Inr fls \<and>
        read_styles fs1 fls = Inr st \<and> import_pages env fs1 fls = Inr pages)"
  unfolding load_stage_def
  by (auto simp add: andThen_Inr_iff resolve_def Let_def)

subsection \<open>Running the build on the sample site\<close>

text \<open>
  Closed terms are evaluated by rewriting with the definitions. The congruence rules
  keep the simplifier from rewriting a continuation before its argument is known.
\<close>

lemma andThen_weak_cong: "r = r' \<Longrightarrow> andThen r f = andThen r' f"
  by simp

lemma await_weak_cong: "r = r' \<Longrightarrow> await r k = await r' k"
  by simp

lemma all_seq_weak_cong: "xs = xs' \<Longrightarrow> fs = fs' \<Longrightarrow> all_seq f xs fs = all_seq f xs' fs'"
  by simp

lemma all_map_weak_cong: "xs = xs' \<Longrightarrow> all_map f xs = all_map f xs'"
  by simp

lemmas eval_cong = andThen_weak_cong await_weak_cong all_seq_weak_cong all_map_weak_cong

lemmas fs_defs = readFile_def writeFile_def copyFile_def mkdirp_def rmdir_recursive_def rmdir_def
  stat_isDirectory_def readDir_def is_file_def is_dir_def under_def parent_def ancestors_def

lemmas path_defs = resolve_def basename_def extname_def dirname_def strip_ext_def
  getName_def indexOf_def js_slice_def endsWith_def suffix_to_prefix

lemmas set_eval = insert_Diff_if insert_commute

lemmas build_defs = prepare_def compile_stage_def writeGlobal_def writePages_def
  bundle_write_dir_def bundle_write_file_def write_chunk_def write_bundle_def OUTPUT_DIR_def
  glob_pages_def is_page_def page_out_dir_def replace_src_def load_stage_def copy_global_scripts_def
  read_styles_def import_pages_def render_page_def page_styles_def truthy_def write_page_def
  cleanup_def trim_def white_space_def ws_len_def

lemmas site_defs = site_env_def site_rollup_def site_render_def global_chunk_def good_env_def
  script_only_env_def broken_global_env_def

lemma prepare_site: "prepare site = Inr site_prepared"
  by (simp add: site_def site_prepared_def build_defs fs_defs path_defs set_eval cong: eval_cong)

lemma compile_site: "compile_stage good_env site_prepared = Inr (site_staged, [])"
  by (simp add: site_prepared_def site_staged_def site_defs build_defs fs_defs path_defs set_eval
      cong: eval_cong)

lemma load_site:
  "load_stage good_env site_staged =
     Inr (''body{color:red}'', True, site_copied, site_styles, site_pages)"
  by (simp add: site_copied_def site_staged_def site_styles_def site_pages_def site_defs
      build_defs fs_defs path_defs cong: eval_cong)

lemma render_site:
  "render_pages good_env True ''body{color:red}'' site_styles site_pages [] = Inr site_output"
  by (simp add: site_styles_def site_pages_def site_output_def site_defs build_defs
      cong: eval_cong)

lemma write_site: "all_seq write_page site_output site_copied = Inr site_written"
  by (simp add: site_output_def site_copied_def site_staged_def site_written_def build_defs
      fs_defs path_defs set_eval cong: eval_cong)

lemma cleanup_site: "cleanup site_written = Inr site_built"
  by (simp add: site_written_def site_copied_def site_staged_def site_built_def build_defs
      fs_defs path_defs set_eval cong: eval_cong)

lemma build_site: "build good_env site = Done site_built []"
  unfolding build_Done_iff
  using prepare_site compile_site load_site render_site write_site cleanup_site
  by blast

section \<open>Compilation failures\<close>

lemma writeGlobal_rejects_modern:
  "rollup env ES2018 GlobalPlugins ''src/global.ts'' = Inl e \<Longrightarrow> writeGlobal env fs = Inl e"
  by (simp add: writeGlobal_def)

lemma writeGlobal_rejects_legacy:
  "rollup env ES2018 GlobalPlugins ''src/global.ts'' = Inr g \<Longrightarrow>
   rollup env ES5 GlobalPlugins ''src/global.ts'' = Inl e \<Longrightarrow> writeGlobal env fs = Inl e"
  by (simp add: writeGlobal_def)

lemma writePages_catches:
  "all_map (rollup env ES2018 PagePlugins) (glob_pages fs) = Inl e \<Longrightarrow>
     writePages env fs = Inr (fs, [Log_error e])"
  by (simp add: writePages_def)

lemma all_map_fails:
  "x \<in> set xs \<Longrightarrow> f x = Inl e \<Longrightarrow> \<exists>e'. all_map f xs = Inl e'"
  by (induction xs) (auto simp add: andThen_Inl_iff andThen_def split: sum.splits)

lemma writePages_page_failure:
  "page \<in> set (glob_pages fs) \<Longrightarrow> rollup env ES2018 PagePlugins page = Inl e \<Longrightarrow>
     \<exists>e'. writePages env fs = Inr (fs, [Log_error e'])"
  using all_map_fails writePages_catches by metis

text \<open>
  C3: a failure of the global compilation is not caught. On the sample site with a global
  entry that does not compile, \<^verbatim>\<open>writeGlobal\<close> rejects with the compiler's error, and
  so does \<^verbatim>\<open>build\<close>.
\<close>

theorem global_compile_failure_rejects:
  "writeGlobal broken_global_env site_prepared = Inl (CompileError ''src/global.ts'')
   \<and> build broken_global_env site = Rejected (CompileError ''src/global.ts'')"
proof -
  have g: "writeGlobal broken_global_env site_prepared = Inl (CompileError ''src/global.ts'')"
    by (rule writeGlobal_rejects_modern) (simp add: site_defs)
  then show ?thesis
    by (simp add: build_def compile_stage_def prepare_site)
qed

section \<open>The directory of static assets\<close>

lemma ancestors_consts:
  "ancestors ''dist'' = [''dist'']"
  "ancestors ''.tmp/microsite'' = [''.tmp'', ''.tmp/microsite'']"
  by (simp_all add: ancestors_def under_def)

lemma resolve_consts:
  "resolve ''./dist'' = ''dist''"
  "resolve ''./.tmp/microsite'' = ''.tmp/microsite''"
  "resolve ''./.tmp'' = ''.tmp''"
  "resolve ''./src/public'' = ''src/public''"
  "resolve ''./.tmp/microsite/global.css'' = ''.tmp/microsite/global.css''"
  "resolve ''./.tmp/microsite/global.js'' = ''.tmp/microsite/global.js''"
  "resolve ''./.tmp/microsite/global.legacy.js'' = ''.tmp/microsite/global.legacy.js''"
  "resolve ''./.tmp/microsite/pages'' = ''.tmp/microsite/pages''"
  "resolve ''dist/index.js'' = ''dist/index.js''"
  "resolve ''dist/index.legacy.js'' = ''dist/index.legacy.js''"
  by (simp_all add: resolve_def)

lemma map_of_filter_None:
  "map_of xs k = None \<Longrightarrow> map_of (filter P xs) k = None"
  by (induction xs) (auto split: if_splits)

lemma mkdirp_Inr:
  "mkdirp fs p = Inr fs' \<Longrightarrow> fs' = fs\<lparr>dirs := dirs fs \<union> set (ancestors p)\<rparr>"
  by (auto simp add: mkdirp_def split: list.splits)

lemma prepare_without_public:
  assumes "\<not> is_file fs ''src/public''" and "''src/public'' \<notin> dirs fs"
  shows "\<exists>e. prepare fs = Inl e"
proof -
  obtain fs1 where fs1: "all_seq (\<lambda>p s. rmdir_recursive s (resolve p))
      [''./dist'', ''./.tmp/microsite''] fs = Inr fs1"
    and f1: "\<not> is_file fs1 ''src/public''" and d1: "''src/public'' \<notin> dirs fs1"
    using assms by (simp add: rmdir_recursive_def is_file_def map_of_filter_None)
  show ?thesis
  proof (cases "all_seq (\<lambda>p s. mkdirp s (resolve p)) [''./dist'', ''./.tmp/microsite''] fs1")
    case (Inl e)
    then show ?thesis using fs1 by (simp add: prepare_def)
  next
    case (Inr fs2)
    then obtain fsa where "mkdirp fs1 ''dist'' = Inr fsa" "mkdirp fsa ''.tmp/microsite'' = Inr fs2"
      by (auto simp add: resolve_consts andThen_Inr_iff)
    then have "files fs2 = files fs1
        \<and> dirs fs2 = dirs fs1 \<union> {''dist'', ''.tmp'', ''.tmp/microsite''}"
      by (auto dest!: mkdirp_Inr simp add: ancestors_consts)
    then have "stat_isDirectory fs2 ''src/public'' = Inl (ENOENT ''src/public'')"
      using f1 d1 by (simp add: stat_isDirectory_def is_file_def is_dir_def)
    then show ?thesis using fs1 Inr by (simp add: prepare_def resolve_consts)
  qed
qed

text \<open>
  C6: the build does not get past a missing or a nested directory of static assets. On
  the sample site without \<^verbatim>\<open>src/public\<close> the call of \<^verbatim>\<open>stat\<close> rejects; with the asset
  \<^verbatim>\<open>src/public/img/logo.png\<close> the copy rejects, as nothing creates \<^verbatim>\<open>dist/img\<close>.
\<close>

theorem static_assets_failures:
  "build good_env site_no_public = Rejected (ENOENT ''src/public'')
   \<and> build good_env site_nested_public = Rejected (ENOENT ''dist/img/logo.png'')"
proof -
  have "prepare site_no_public = Inl (ENOENT ''src/public'')"
    by (simp add: site_no_public_def build_defs fs_defs path_defs set_eval cong: eval_cong)
  moreover have "prepare site_nested_public = Inl (ENOENT ''dist/img/logo.png'')"
    by (simp add: site_nested_public_def build_defs fs_defs path_defs set_eval cong: eval_cong)
  ultimately show ?thesis by (simp add: build_def)
qed

section \<open>The document shell\<close>

lemma page_styles_eq:
  "page_styles globalStyle style =
     (if globalStyle = [] then [] else [globalStyle])
     @ (case style of None \<Rightarrow> [] | Some s \<Rightarrow> if s = [] then [] else [s])"
  by (simp add: page_styles_def truthy_def split: option.splits)

lemma render_page_Inr_iff:
  "render_page env hs gs st page = Inr content \<longleftrightarrow>
     (\<exists>html. content = DOCTYPE @ html
        \<and> render env (Document env (render env) hs (page_styles gs (map_of st (fst page)))
                        (snd page)) True = Inr html)"
  by (auto simp add: render_page_def andThen_Inr_iff)

lemma load_site_blank_style:
  "load_stage good_env site_staged_blank_style =
     Inr ([], True, site_copied_blank_style, site_styles, site_pages)"
  by (simp add: site_copied_blank_style_def site_staged_blank_style_def site_staged_def
      site_styles_def site_pages_def site_defs build_defs fs_defs path_defs cong: eval_cong)

text \<open>
  C5, as stated, fails for an empty stylesheet: with an empty \<^verbatim>\<open>global.css\<close> in the
  staging area of the sample site, the shell of the page \<^verbatim>\<open>/index\<close> is given the page's
  stylesheet only, and the shell of \<^verbatim>\<open>/blog/post\<close> is given no stylesheet at all.
\<close>

theorem empty_stylesheet_dropped:
  "load_stage good_env site_staged_blank_style =
     Inr ([], True, site_copied_blank_style, site_styles, site_pages)
   \<and> render_pages good_env True [] site_styles site_pages [] =
       Inr [(''/index'', DOCTYPE @ ''<script/><style>.a{}</style><body>index.tsx'' @ [CHR 0x0A]),
            (''/blog/post'', DOCTYPE @ ''<script/><body>blog/post.tsx'' @ [CHR 0x0A])]
   \<and> page_styles [] (map_of site_styles ''/index'') = [''.a{}'']
   \<and> page_styles [] (map_of site_styles ''/blog/post'') = []"
  by (simp add: load_site_blank_style)
    (simp add: site_styles_def site_pages_def site_defs build_defs cong: eval_cong)

text \<open>
  C5, amended: the shell of every rendered page is given the renderer, the flag that
  says whether the global script is more than white space, and the stylesheets that are
  not empty, the global one first and then the one staged under the page's name, if
  there is one; the renderer is asked to pretty-print, and the document is its result
  after the doctype line.
\<close>

theorem document_shell_props:
  assumes "load_stage env fs = Inr (globalStyle, hasGlobalScript, fs1, styles, pages)"
    and "render_pages env hasGlobalScript globalStyle styles pages [] = Inr outp"
  shows "readFile fs ''.tmp/microsite/global.css'' = Inr globalStyle
     \<and> (\<exists>v. readFile fs ''.tmp/microsite/global.js'' = Inr v \<and> hasGlobalScript = (trim v \<noteq> []))
     \<and> (\<exists>fls. readDir fs1 ''.tmp/microsite/pages'' = Inr fls \<and> read_styles fs1 fls = Inr styles)
     \<and> list_all2
          (\<lambda>page out. fst out = fst page
             \<and> (\<exists>html. snd out = DOCTYPE @ html
                  \<and> render env
                       (Document env (render env) hasGlobalScript
                          ((if globalStyle = [] then [] else [globalStyle])
                           @ (case map_of styles (fst page) of
                                None \<Rightarrow> []
                              | Some s \<Rightarrow> if s = [] then [] else [s]))
                          (snd page))
                       True = Inr html))
          pages outp"
proof -
  from render_pages_Inr [OF assms(2)]
  have "list_all2 (\<lambda>page p. fst p = fst page
      \<and> render_page env hasGlobalScript globalStyle styles page = Inr (snd p)) pages outp"
    by simp
  then have "list_all2
          (\<lambda>page out. fst out = fst page
             \<and> (\<exists>html. snd out = DOCTYPE @ html
                  \<and> render env
                       (Document env (render env) hasGlobalScript
                          ((if globalStyle = [] then [] else [globalStyle])
                           @ (case map_of styles (fst page) of
                                None \<Rightarrow> []
                              | Some s \<Rightarrow> if s = [] then [] else [s]))
                          (snd page))
                       True = Inr html))
          pages outp"
    by (rule list_all2_mono) (simp add: render_page_Inr_iff page_styles_eq)
  moreover from assms(1) have "readFile fs ''.tmp/microsite/global.css'' = Inr globalStyle"
    and "\<exists>v. readFile fs ''.tmp/microsite/global.js'' = Inr v \<and> hasGlobalScript = (trim v \<noteq> [])"
    and "\<exists>fls. readDir fs1 ''.tmp/microsite/pages'' = Inr fls \<and> read_styles fs1 fls = Inr styles"
    unfolding load_stage_Inr_iff by blast+
  ultimately show ?thesis by (intro conjI)
qed

theorem document_shell_props_witness:
  "load_stage good_env site_staged =
     Inr (''body{color:red}'', True, site_copied, site_styles, site_pages)
   \<and> render_pages good_env True ''body{color:red}'' site_styles site_pages [] = Inr site_output
   \<and> list_all2
        (\<lambda>page out. fst out = fst page
           \<and> (\<exists>html. snd out = DOCTYPE @ html
                \<and> render good_env
                     (Document good_env (render good_env) True
                        ((if ''body{color:red}'' = [] then [] else [''body{color:red}''])
                         @ (case map_of site_styles (fst page) of
                              None \<Rightarrow> []
                            | Some s \<Rightarrow> if s = [] then [] else [s]))
                        (snd page))
                     True = Inr html))
        site_pages site_output"
  using document_shell_props [OF load_site render_site] load_site render_site
  by (intro conjI) blast+

section \<open>Path segments\<close>

lemma js_split_nonempty [simp]: "js_split s \<noteq> []"
  by (induction s) (auto split: list.splits)

lemma js_split_append_slash: "js_split (a @ CHR ''/'' # b) = js_split a @ js_split b"
  by (induction a) (auto split: list.splits)

lemma js_split_noslash: "CHR ''/'' \<notin> set s \<Longrightarrow> js_split s = [s]"
  by (induction s) auto

lemma js_split_append_noslash:
  "CHR ''/'' \<notin> set t \<Longrightarrow> js_split (q @ t) = butlast (js_split q) @ [last (js_split q) @ t]"
proof (induction q)
  case Nil
  then show ?case by (simp add: js_split_noslash)
next
  case (Cons c q)
  then show ?case
    by (cases "js_split q") (auto split: list.splits)
qed

lemma js_join_Cons: "ss \<noteq> [] \<Longrightarrow> js_join (s # ss) = s @ CHR ''/'' # js_join ss"
  by (cases ss) simp_all

lemma js_join_Cons_Cons: "js_join ((c # s) # ss) = c # js_join (s # ss)"
  by (cases ss) simp_all

lemma js_join_split [simp]: "js_join (js_split s) = s"
proof (induction s)
  case Nil
  then show ?case by simp
next
  case (Cons c s)
  then show ?case
    by (cases "js_split s") (auto simp add: js_join_Cons js_join_Cons_Cons split: list.splits)
qed

lemma js_join_append:
  "xs \<noteq> [] \<Longrightarrow> ys \<noteq> [] \<Longrightarrow> js_join (xs @ ys) = js_join xs @ CHR ''/'' # js_join ys"
  by (induction xs rule: js_join.induct) (simp_all add: js_join_Cons)

lemma js_join_snoc_append: "js_join (xs @ [s @ t]) = js_join (xs @ [s]) @ t"
  by (induction xs rule: js_join.induct) (simp_all add: js_join_Cons)

lemma seg_noslash: "s \<in> set (js_split p) \<Longrightarrow> CHR ''/'' \<notin> set s"
  by (induction p arbitrary: s) (auto split: if_splits list.splits)

lemma js_split_join:
  "ss \<noteq> [] \<Longrightarrow> \<forall>s \<in> set ss. CHR ''/'' \<notin> set s \<Longrightarrow> js_split (js_join ss) = ss"
proof (induction ss rule: js_join.induct)
  case 1
  then show ?case by simp
next
  case (2 s)
  then show ?case by (simp add: js_split_noslash)
next
  case (3 s t ss)
  then show ?case by (simp add: js_split_append_slash js_split_noslash)
qed

lemma norm_segs_append:
  "norm_segs acc (xs @ ys) = norm_segs (rev (norm_segs acc xs)) ys"
  by (induction xs arbitrary: acc) auto

lemma norm_segs_plain:
  "\<forall>s \<in> set ss. s \<noteq> ''..'' \<Longrightarrow>
     norm_segs acc ss = rev acc @ filter (\<lambda>s. s \<noteq> [] \<and> s \<noteq> ''.'') ss"
  by (induction ss arbitrary: acc) auto

lemma basename_last_seg:
  "p \<noteq> [] \<Longrightarrow> last p \<noteq> CHR ''/'' \<Longrightarrow> basename p = last (js_split p)"
proof (induction p)
  case Nil
  then show ?case by simp
next
  case (Cons c p)
  show ?case
  proof (cases "p = []")
    case True
    with Cons.prems show ?thesis by (simp add: basename_def)
  next
    case False
    with Cons.prems have l: "last p \<noteq> CHR ''/''" by simp
    with Cons.IH False have ih: "basename p = last (js_split p)" by simp
    from False l have r: "dropWhile (\<lambda>c. c = CHR ''/'') (rev p) = rev p"
      by (cases p rule: rev_cases) auto
    have b: "basename p = rev (takeWhile (\<lambda>c. c \<noteq> CHR ''/'') (rev p))"
      by (simp add: basename_def r)
    from False l have r': "dropWhile (\<lambda>c. c = CHR ''/'') (rev (c # p)) = rev (c # p)"
      by (cases p rule: rev_cases) auto
    have b': "basename (c # p) = rev (takeWhile (\<lambda>c. c \<noteq> CHR ''/'') (rev p @ [c]))"
      using r' by (simp add: basename_def)
    show ?thesis
    proof (cases "CHR ''/'' \<in> set p")
      case True
      then have "takeWhile (\<lambda>c. c \<noteq> CHR ''/'') (rev p @ [c]) = takeWhile (\<lambda>c. c \<noteq> CHR ''/'') (rev p)"
        by (simp add: takeWhile_append1)
      moreover from True have "length (js_split p) \<ge> 2 \<or> c = CHR ''/''"
        by (induction p) (auto split: list.splits if_splits)
      ultimately show ?thesis using ih b b'
        by (cases "js_split p") (auto split: list.splits)
    next
      case F: False
      then have "js_split p = [p]" by (simp add: js_split_noslash)
      moreover have "takeWhile (\<lambda>c. c \<noteq> CHR ''/'') (rev p @ [c])
          = rev p @ takeWhile (\<lambda>c. c \<noteq> CHR ''/'') [c]"
        using F by (intro takeWhile_append2) auto
      ultimately show ?thesis using b' by auto
    qed
  qed
qed

section \<open>Where the pages are staged\<close>

lemma extname_of_basename:
  assumes "basename p = b0 @ CHR ''.'' # x" and "b0 \<noteq> []" and "CHR ''.'' \<notin> set x"
    and "x \<noteq> []"
  shows "extname p = CHR ''.'' # x"
proof -
  have "takeWhile (\<lambda>c. c \<noteq> CHR ''.'') (rev (b0 @ CHR ''.'' # x)) = rev x"
    using assms(3) by (auto simp add: takeWhile_tail)
  moreover have "b0 @ CHR ''.'' # x \<noteq> ''..''"
  proof
    assume "b0 @ CHR ''.'' # x = ''..''"
    then have "length (b0 @ CHR ''.'' # x) = 2" by simp
    with assms(2,4) show False by (cases b0; cases x) auto
  qed
  ultimately show ?thesis
    using assms(1,2) by (simp add: extname_def Let_def)
qed

lemma basename_noslash:
  assumes "CHR ''/'' \<notin> set b" and "b \<noteq> []"
  shows "basename b = b"
proof -
  from assms have "last b \<noteq> CHR ''/''" using last_in_set by metis
  with assms(2) have "basename b = last (js_split b)" by (rule basename_last_seg)
  with assms(1) show ?thesis by (simp add: js_split_noslash)
qed

lemma tidy_seg:
  "list_all (\<lambda>s. s \<noteq> [] \<and> \<not> prefix ''.'' s) ss \<Longrightarrow> s \<in> set ss \<Longrightarrow>
     s \<noteq> [] \<and> s \<noteq> ''.'' \<and> s \<noteq> ''..''"
  by (auto simp add: list_all_iff)

lemma staged_script_form:
  assumes "is_page page"
  shows "\<exists>r. tidy r \<and> staged_script page = pages_root @ r @ ''.js''
     \<and> (\<not> list_ex (\<lambda>s. s = []) (js_split (drop (length ''src/pages/'') page))
          \<longrightarrow> page = ''src/pages/'' @ r @ ''.tsx'')"
proof -
  define rel where "rel = drop (length ''src/pages/'') page"
  define segs where "segs = js_split rel"
  from assms have page: "page = ''src/pages/'' @ rel"
    and tsx: "suffix ''.tsx'' page"
    and nodot: "\<forall>s \<in> set segs. \<not> prefix ''.'' s"
    by (auto simp add: is_page_def rel_def segs_def endsWith_def list_ex_iff prefix_def)
  have segs_ne: "segs \<noteq> []" by (simp add: segs_def)
  have noslash: "\<forall>s \<in> set segs. CHR ''/'' \<notin> set s"
    using seg_noslash by (auto simp add: segs_def)
  have split_page: "js_split page = [''src'', ''pages''] @ segs"
  proof -
    have "page = ''src/pages'' @ CHR ''/'' # rel" by (simp add: page)
    then have "js_split page = js_split ''src/pages'' @ js_split rel"
      by (simp only: js_split_append_slash)
    then show ?thesis by (simp add: segs_def)
  qed
  \<comment> \<open>the last segment is the file name \<open>b0.tsx\<close>\<close>
  from tsx obtain q where q: "page = q @ ''.tsx''" by (auto simp add: suffix_def)
  define b0 where "b0 = last (js_split q)"
  have "js_split page = butlast (js_split q) @ [b0 @ ''.tsx'']"
    unfolding q b0_def by (rule js_split_append_noslash) simp
  then have last_seg: "last segs = b0 @ ''.tsx''"
    using split_page segs_ne by (metis last_appendR last_snoc)
  have b0_seg: "b0 @ ''.tsx'' \<in> set segs"
    using last_seg segs_ne last_in_set by metis
  have b0_ne: "b0 \<noteq> []" using nodot b0_seg by (cases b0) auto
  have b0_nodot: "\<not> prefix ''.'' b0" using nodot b0_seg b0_ne by (cases b0) auto
  have b0_noslash: "CHR ''/'' \<notin> set b0" using noslash b0_seg by auto
  have base: "basename page = b0 @ ''.tsx''"
  proof -
    have "page \<noteq> []" "last page \<noteq> CHR ''/''" by (simp_all add: q)
    then have "basename page = last (js_split page)" by (rule basename_last_seg)
    then show ?thesis using split_page segs_ne last_seg by simp
  qed
  have stem: "strip_ext (basename page) = b0"
  proof -
    have "basename (b0 @ ''.tsx'') = b0 @ ''.tsx''"
      using b0_noslash by (intro basename_noslash) auto
    then have "extname (b0 @ ''.tsx'') = ''.tsx''"
      using extname_of_basename [of "b0 @ ''.tsx''" b0 "''tsx''"] b0_ne by simp
    then show ?thesis by (simp add: strip_ext_def base)
  qed
  \<comment> \<open>the directory the bundle is written to\<close>
  define C where "C = [''.'', ''.tmp'', ''microsite'', ''pages'']"
  have "replace_src page = ''./.tmp/microsite/pages'' @ CHR ''/'' # rel"
    by (simp add: replace_src_def OUTPUT_DIR_def page)
  then have "js_split (replace_src page) = js_split ''./.tmp/microsite/pages'' @ js_split rel"
    by (simp only: js_split_append_slash)
  then have "js_split (replace_src page) = C @ segs" by (simp add: C_def segs_def)
  then have out_dir: "page_out_dir page = js_join (C @ butlast segs)"
    using segs_ne by (simp add: page_out_dir_def butlast_append)
  have "page_out_dir page @ ''/'' @ strip_ext (basename page) @ ''.js''
      = js_join (C @ butlast segs) @ CHR ''/'' # js_join [b0 @ ''.js'']"
    by (simp add: out_dir stem)
  also have "\<dots> = js_join ((C @ butlast segs) @ [b0 @ ''.js''])"
    by (rule js_join_append [symmetric]) (simp_all add: C_def)
  finally have X: "page_out_dir page @ ''/'' @ strip_ext (basename page) @ ''.js''
      = js_join (C @ butlast segs @ [b0 @ ''.js''])" by simp
  have but: "\<forall>s \<in> set (butlast segs). CHR ''/'' \<notin> set s \<and> \<not> prefix ''.'' s"
    using noslash nodot by (auto dest: in_set_butlastD)
  have sj: "js_split (js_join (C @ butlast segs @ [b0 @ ''.js''])) = C @ butlast segs @ [b0 @ ''.js'']"
    using but b0_noslash by (intro js_split_join) (auto simp add: C_def)
  have st1: "staged_script page = js_join (norm_segs [] (C @ butlast segs @ [b0 @ ''.js'']))"
    unfolding staged_script_def resolve_def X sj ..
  have "\<forall>s \<in> set (C @ butlast segs @ [b0 @ ''.js'']). s \<noteq> ''..''"
    using but by (auto simp add: C_def)
  then have st2: "norm_segs [] (C @ butlast segs @ [b0 @ ''.js''])
      = rev [] @ filter (\<lambda>s. s \<noteq> [] \<and> s \<noteq> ''.'') (C @ butlast segs @ [b0 @ ''.js''])"
    by (rule norm_segs_plain)
  define mids where "mids = filter (\<lambda>s. s \<noteq> []) (butlast segs)"
  have "filter (\<lambda>s. s \<noteq> [] \<and> s \<noteq> ''.'') (butlast segs) = mids"
    unfolding mids_def using but by (intro filter_cong) auto
  then have fl: "filter (\<lambda>s. s \<noteq> [] \<and> s \<noteq> ''.'') (C @ butlast segs @ [b0 @ ''.js''])
      = [''.tmp'', ''microsite'', ''pages''] @ (mids @ [b0 @ ''.js''])"
    by (simp add: C_def)
  have "staged_script page
      = js_join ([''.tmp'', ''microsite'', ''pages''] @ (mids @ [b0 @ ''.js'']))"
    unfolding st1 st2 fl by simp
  also have "\<dots> = js_join [''.tmp'', ''microsite'', ''pages'']
      @ CHR ''/'' # js_join (mids @ [b0 @ ''.js''])"
    by (rule js_join_append) simp_all
  also have "\<dots> = pages_root @ js_join (mids @ [b0]) @ ''.js''"
    by (simp add: pages_root_def js_join_snoc_append)
  finally have form: "staged_script page = pages_root @ js_join (mids @ [b0]) @ ''.js''" .
  have mids: "\<forall>s \<in> set mids. s \<noteq> [] \<and> CHR ''/'' \<notin> set s \<and> \<not> prefix ''.'' s"
    using but by (auto simp add: mids_def)
  have "js_split (js_join (mids @ [b0])) = mids @ [b0]"
    using mids b0_noslash by (intro js_split_join) auto
  then have tidy: "tidy (js_join (mids @ [b0]))"
    using mids b0_ne b0_nodot by (auto simp add: tidy_def list_all_iff)
  have "page = ''src/pages/'' @ js_join (mids @ [b0]) @ ''.tsx''"
    if "\<not> list_ex (\<lambda>s. s = []) (js_split (drop (length ''src/pages/'') page))"
  proof -
    from that have "\<forall>s \<in> set (butlast segs). s \<noteq> []"
      unfolding segs_def rel_def list_ex_iff by (metis in_set_butlastD)
    then have "mids = butlast segs"
      unfolding mids_def by (simp add: filter_id_conv)
    then have "js_join (mids @ [b0]) @ ''.tsx'' = js_join (butlast segs @ [last segs])"
      by (simp add: last_seg js_join_snoc_append)
    also have "\<dots> = rel" using segs_ne by (simp add: segs_def)
    finally show ?thesis by (simp add: page)
  qed
  with form tidy show ?thesis by blast
qed

lemma resolve_plain_suffix:
  assumes "\<forall>s \<in> set (js_split q). s \<noteq> [] \<and> s \<noteq> ''.'' \<and> s \<noteq> ''..''"
  shows "resolve (a @ CHR ''/'' # q)
     = (if norm_segs [] (js_split a) = [] then q else resolve a @ CHR ''/'' # q)"
proof -
  define N where "N = norm_segs [] (js_split a)"
  have "norm_segs (rev N) (js_split q)
      = rev (rev N) @ filter (\<lambda>s. s \<noteq> [] \<and> s \<noteq> ''.'') (js_split q)"
    using assms by (intro norm_segs_plain) auto
  moreover have "filter (\<lambda>s. s \<noteq> [] \<and> s \<noteq> ''.'') (js_split q) = js_split q"
    using assms by (simp add: filter_id_conv)
  ultimately have "norm_segs [] (js_split (a @ CHR ''/'' # q)) = N @ js_split q"
    by (simp add: js_split_append_slash norm_segs_append N_def)
  then have "resolve (a @ CHR ''/'' # q) = js_join (N @ js_split q)"
    by (simp add: resolve_def)
  also have "\<dots> = (if N = [] then q else js_join N @ CHR ''/'' # q)"
    by (simp add: js_join_append)
  finally show ?thesis by (simp add: N_def resolve_def)
qed

lemma resolve_plain:
  assumes "\<forall>s \<in> set (js_split q). s \<noteq> [] \<and> s \<noteq> ''.'' \<and> s \<noteq> ''..''"
  shows "resolve q = q"
proof -
  have "norm_segs [] (js_split q) = rev [] @ filter (\<lambda>s. s \<noteq> [] \<and> s \<noteq> ''.'') (js_split q)"
    using assms by (intro norm_segs_plain) auto
  moreover have "filter (\<lambda>s. s \<noteq> [] \<and> s \<noteq> ''.'') (js_split q) = js_split q"
    using assms by (simp add: filter_id_conv)
  ultimately show ?thesis by (simp add: resolve_def)
qed

lemma nodot_plain: "\<not> prefix ''.'' s \<Longrightarrow> s \<noteq> ''.'' \<and> s \<noteq> ''..''"
  by (cases s) auto

lemma tidy_append_plain:
  assumes "tidy r" and "CHR ''/'' \<notin> set t"
  shows "\<forall>s \<in> set (js_split (r @ t)). s \<noteq> [] \<and> s \<noteq> ''.'' \<and> s \<noteq> ''..''"
proof -
  have sp: "js_split (r @ t) = butlast (js_split r) @ [last (js_split r) @ t]"
    using assms(2) by (rule js_split_append_noslash)
  have all: "\<forall>s \<in> set (js_split r). s \<noteq> [] \<and> \<not> prefix ''.'' s"
    using assms(1) by (simp add: tidy_def list_all_iff)
  then have "\<forall>s \<in> set (butlast (js_split r)). s \<noteq> [] \<and> s \<noteq> ''.'' \<and> s \<noteq> ''..''"
    using nodot_plain by (metis in_set_butlastD)
  moreover have "last (js_split r) \<in> set (js_split r)" by simp
  with all have "last (js_split r) \<noteq> []" "\<not> prefix ''.'' (last (js_split r))" by auto
  then have "last (js_split r) @ t \<noteq> [] \<and> last (js_split r) @ t \<noteq> ''.''
      \<and> last (js_split r) @ t \<noteq> ''..''"
    by (cases "last (js_split r)") auto
  ultimately show ?thesis unfolding sp by auto
qed

lemma tidy_last_seg:
  assumes "tidy r"
  shows "last (js_split r) \<noteq> []"
  using assms last_in_set [of "js_split r"] by (auto simp add: tidy_def list_all_iff)

lemma basename_staged:
  assumes "tidy r" and "CHR ''/'' \<notin> set t" and "t \<noteq> []"
  shows "basename (pages_root @ r @ t) = last (js_split r) @ t"
proof -
  have "last t \<noteq> CHR ''/''" using assms(2,3) last_in_set by metis
  then have "pages_root @ r @ t \<noteq> []" "last (pages_root @ r @ t) \<noteq> CHR ''/''"
    using assms(3) by auto
  then have "basename (pages_root @ r @ t) = last (js_split (pages_root @ r @ t))"
    by (rule basename_last_seg)
  moreover have "pages_root @ r @ t = ''.tmp/microsite/pages'' @ CHR ''/'' # (r @ t)"
    by (simp add: pages_root_def)
  then have "js_split (pages_root @ r @ t) = js_split ''.tmp/microsite/pages'' @ js_split (r @ t)"
    by (simp only: js_split_append_slash)
  moreover have "js_split (r @ t) = butlast (js_split r) @ [last (js_split r) @ t]"
    using assms(2) by (rule js_split_append_noslash)
  ultimately show ?thesis by simp
qed

lemma extname_staged:
  assumes "tidy r"
  shows "extname (pages_root @ r @ ''.js'') = ''.js''"
    and "extname (pages_root @ r @ ''.css'') = ''.css''"
proof -
  have "basename (pages_root @ r @ ''.js'') = last (js_split r) @ ''.js''"
    using assms by (intro basename_staged) auto
  then show "extname (pages_root @ r @ ''.js'') = ''.js''"
    using extname_of_basename [of _ "last (js_split r)" "''js''"] tidy_last_seg [OF assms]
    by simp
  have "basename (pages_root @ r @ ''.css'') = last (js_split r) @ ''.css''"
    using assms by (intro basename_staged) auto
  then show "extname (pages_root @ r @ ''.css'') = ''.css''"
    using extname_of_basename [of _ "last (js_split r)" "''css''"] tidy_last_seg [OF assms]
    by simp
qed

lemma strip_ext_staged:
  "tidy r \<Longrightarrow> strip_ext (pages_root @ r @ ''.js'') = pages_root @ r"
  by (simp add: strip_ext_def extname_staged)

lemma indexOf_staged: "indexOf (pages_root @ s) ''pages/'' = 15"
  by (simp add: indexOf_def pages_root_def)

lemma getName_staged:
  assumes "tidy r"
  shows "getName (pages_root @ r @ ''.js'') = ''/'' @ r"
    and "getName (pages_root @ r @ ''.css'') = ''/'' @ r"
proof -
  have d: "drop 20 (pages_root @ s) = ''/'' @ s" for s
    by (simp add: pages_root_def)
  have l: "length (pages_root @ s) = 21 + length s" for s
    by (simp add: pages_root_def)
  show "getName (pages_root @ r @ ''.js'') = ''/'' @ r"
    using d [of "r @ ''.js''"] l [of "r @ ''.js''"]
    by (simp add: getName_def indexOf_staged extname_staged [OF assms] js_slice_def)
  show "getName (pages_root @ r @ ''.css'') = ''/'' @ r"
    using d [of "r @ ''.css''"] l [of "r @ ''.css''"]
    by (simp add: getName_def indexOf_staged extname_staged [OF assms] js_slice_def)
qed

lemma html_path_staged:
  assumes "tidy r"
  shows "resolve (''./dist/'' @ (''/'' @ r) @ ''.html'') = ''dist/'' @ r @ ''.html''"
proof -
  have "resolve (''./dist/'' @ CHR ''/'' # (r @ ''.html''))
      = (if norm_segs [] (js_split ''./dist/'') = [] then r @ ''.html''
         else resolve ''./dist/'' @ CHR ''/'' # (r @ ''.html''))"
    using tidy_append_plain [OF assms, of "''.html''"] by (intro resolve_plain_suffix) simp
  then show ?thesis by (simp add: resolve_def)
qed

section \<open>What the file operations change\<close>

lemma writeFile_Inr:
  "writeFile fs p c = Inr fs' \<Longrightarrow> fs' = fs\<lparr>files := AList.update p c (files fs)\<rparr>"
  by (auto simp add: writeFile_def split: if_splits)

lemma copyFile_Inr:
  "copyFile fs a b = Inr fs' \<Longrightarrow>
     \<exists>c. map_of (files fs) a = Some c \<and> fs' = fs\<lparr>files := AList.update b c (files fs)\<rparr>"
  by (auto simp add: copyFile_def readFile_def andThen_Inr_iff split: option.splits
      dest: writeFile_Inr)

lemma write_chunk_Inr:
  assumes "write_chunk fs file ch = Inr fs'"
  shows "dirs fs' = dirs fs \<union> set (ancestors (parent file))"
    and "files fs' =
      (case css ch of
         None \<Rightarrow> AList.update file (script ch) (files fs)
       | Some s \<Rightarrow> AList.update (strip_ext file @ ''.css'') s
           (AList.update file (script ch) (files fs)))"
proof -
  from assms obtain fs1 fs2 where 1: "mkdirp fs (parent file) = Inr fs1"
    and 2: "writeFile fs1 file (script ch) = Inr fs2"
    and 3: "(case css ch of None \<Rightarrow> Inr fs2
             | Some s \<Rightarrow> writeFile fs2 (strip_ext file @ ''.css'') s) = Inr fs'"
    by (auto simp add: write_chunk_def andThen_Inr_iff)
  from 1 have fs1: "fs1 = fs\<lparr>dirs := dirs fs \<union> set (ancestors (parent file))\<rparr>"
    by (rule mkdirp_Inr)
  from 2 have fs2: "fs2 = fs1\<lparr>files := AList.update file (script ch) (files fs1)\<rparr>"
    by (rule writeFile_Inr)
  show "dirs fs' = dirs fs \<union> set (ancestors (parent file))"
    using 3 fs1 fs2 by (auto split: option.splits dest!: writeFile_Inr)
  show "files fs' =
      (case css ch of
         None \<Rightarrow> AList.update file (script ch) (files fs)
       | Some s \<Rightarrow> AList.update (strip_ext file @ ''.css'') s
           (AList.update file (script ch) (files fs)))"
    using 3 fs1 fs2 by (auto split: option.splits dest!: writeFile_Inr)
qed

lemma all_seq_invariant:
  assumes "all_seq f xs s = Inr s'" and "I s"
    and "\<And>x t t'. x \<in> set xs \<Longrightarrow> f x t = Inr t' \<Longrightarrow> I t \<Longrightarrow> I t'"
  shows "I s'"
  using assms by (induction xs arbitrary: s) (auto simp add: andThen_Inr_iff)

lemma all_map_length: "all_map f xs = Inr ys \<Longrightarrow> length ys = length xs"
  by (induction xs arbitrary: ys) (auto simp add: andThen_Inr_iff)

lemma all_map_Inr_map:
  "all_map f xs = Inr ys \<Longrightarrow> list_all2 (\<lambda>x y. f x = Inr y) xs ys"
  by (induction xs arbitrary: ys) (auto simp add: andThen_Inr_iff)

subsection \<open>Files left as they are\<close>

lemma same_files_refl [simp]: "same_files P fs fs"
  by (simp add: same_files_def)

lemma same_files_trans:
  "same_files P fs fs' \<Longrightarrow> same_files P fs' fs'' \<Longrightarrow> same_files P fs fs''"
  by (simp add: same_files_def)

lemma filter_update_other:
  "\<not> P k \<Longrightarrow>
     filter (\<lambda>e. P (fst e)) (AList.update k v al) = filter (\<lambda>e. P (fst e)) al"
  by (induction al) auto


lemma same_files_eq: "files fs' = files fs \<Longrightarrow> same_files P fs fs'"
  by (simp add: same_files_def)

lemma map_of_filter_fst_P:
  "P k \<Longrightarrow> map_of (filter (\<lambda>e. P (fst e)) al) k = map_of al k"
  by (induction al) auto

lemma same_files_map_of:
  assumes "same_files P fs fs'" and "P p"
  shows "map_of (files fs') p = map_of (files fs) p"
proof -
  have "map_of (files fs') p = map_of (filter (\<lambda>e. P (fst e)) (files fs')) p"
    using assms(2) by (simp add: map_of_filter_fst_P [where P = P])
  also have "\<dots> = map_of (filter (\<lambda>e. P (fst e)) (files fs)) p"
    using assms(1) by (simp add: same_files_def)
  also have "\<dots> = map_of (files fs) p"
    using assms(2) by (simp add: map_of_filter_fst_P [where P = P])
  finally show ?thesis .
qed

lemma same_files_weaken:
  assumes "same_files P fs fs'" and "\<And>p. Q p \<Longrightarrow> P p"
  shows "same_files Q fs fs'"
proof -
  have "filter (\<lambda>e. Q (fst e)) xs = filter (\<lambda>e. Q (fst e)) (filter (\<lambda>e. P (fst e)) xs)" for xs
    using assms(2) by (induction xs) auto
  then show ?thesis using assms(1) unfolding same_files_def by metis
qed

lemma write_chunk_same_files:
  assumes "write_chunk fs file ch = Inr fs'" and "\<not> P file" and "\<not> P (strip_ext file @ ''.css'')"
  shows "same_files P fs fs'"
  using write_chunk_Inr(2) [OF assms(1)] assms(2,3)
  by (auto simp add: same_files_def filter_update_other split: option.splits)


lemma is_file_keys: "is_file fs p \<longleftrightarrow> p \<in> fst ` set (files fs)"
  by (simp add: is_file_def map_of_eq_None_iff)

section \<open>What the stages change\<close>

lemma norm_segs_set:
  "s \<in> set (norm_segs acc ss) \<Longrightarrow>
     s \<in> set acc \<or> (s \<in> set ss \<and> s \<noteq> [] \<and> s \<noteq> ''.'' \<and> s \<noteq> ''..'')"
proof (induction ss arbitrary: acc)
  case Nil
  then show ?case by simp
next
  case (Cons a ss)
  have tl: "x \<in> set (tl xs) \<Longrightarrow> x \<in> set xs" for x :: string and xs
    by (cases xs) auto
  from Cons.prems consider
      "a = [] \<or> a = ''.''" "s \<in> set (norm_segs acc ss)"
    | "a = ''..''" "s \<in> set (norm_segs (tl acc) ss)"
    | "a \<noteq> []" "a \<noteq> ''.''" "a \<noteq> ''..''" "s \<in> set (norm_segs (a # acc) ss)"
    by (auto split: if_splits)
  then show ?case
  proof cases
    case 1
    with Cons.IH [of acc] show ?thesis by auto
  next
    case 2
    with Cons.IH [of "tl acc"] tl show ?thesis by auto
  next
    case 3
    with Cons.IH [of "a # acc"] show ?thesis by auto
  qed
qed

lemma resolved_plain:
  assumes "resolve p = p" and "p \<noteq> []"
  shows "\<forall>s \<in> set (js_split p). s \<noteq> [] \<and> s \<noteq> ''.'' \<and> s \<noteq> ''..''"
proof -
  define N where "N = norm_segs [] (js_split p)"
  have N: "\<forall>s \<in> set N. s \<in> set (js_split p) \<and> s \<noteq> [] \<and> s \<noteq> ''.'' \<and> s \<noteq> ''..''"
    using norm_segs_set [of _ "[]" "js_split p"] by (auto simp add: N_def)
  from assms have p: "js_join N = p" by (simp add: resolve_def N_def)
  with assms(2) have "N \<noteq> []" by auto
  moreover from N have "\<forall>s \<in> set N. CHR ''/'' \<notin> set s" using seg_noslash by blast
  ultimately have "js_split (js_join N) = N" by (rule js_split_join)
  with p N show ?thesis by simp
qed

lemma under_consts [simp]:
  "under ''dist'' p \<Longrightarrow> \<not> under ''.tmp/microsite'' p"
  "\<not> under ''.tmp/microsite'' ''src/public''"
  "\<not> under ''dist'' ''src/public''"
  "under ''.tmp/microsite'' ''.tmp/microsite/pages''"
  "\<not> under ''.tmp/microsite'' ''.tmp''"
  "\<not> under ''dist'' ''.tmp''"
  "\<not> under ''dist'' ''.tmp/microsite/pages''"
  "under ''.tmp/microsite'' (pages_root @ r)"
  "under ''dist'' (''dist/'' @ r)"
  by (auto simp add: under_def pages_root_def elim!: prefixE)

lemma public_copy_target:
  assumes "resolve file = file" and "under ''src/public'' file" and "file \<noteq> ''src/public''"
  shows "resolve (''./dist/'' @ drop (length ''src/public/'') file)
     = ''dist/'' @ drop (length ''src/public/'') file"
proof -
  define x where "x = drop (length ''src/public/'') file"
  from assms(2,3) have fx: "file = ''src/public'' @ CHR ''/'' # x"
    by (auto simp add: under_def prefix_def x_def)
  then have "file \<noteq> []" by simp
  with assms(1) have "\<forall>s \<in> set (js_split file). s \<noteq> [] \<and> s \<noteq> ''.'' \<and> s \<noteq> ''..''"
    by (rule resolved_plain)
  moreover have "js_split file = js_split ''src/public'' @ js_split x"
    by (subst fx) (simp only: js_split_append_slash)
  ultimately have x: "\<forall>s \<in> set (js_split x). s \<noteq> [] \<and> s \<noteq> ''.'' \<and> s \<noteq> ''..''"
    by simp
  have "resolve (''./dist'' @ CHR ''/'' # x)
      = (if norm_segs [] (js_split ''./dist'') = [] then x else resolve ''./dist'' @ CHR ''/'' # x)"
    using x by (rule resolve_plain_suffix)
  then show ?thesis by (simp add: x_def resolve_def)
qed

lemma prepare_Inr:
  assumes "prepare fs = Inr fs1"
  obtains fsB where
    "files fsB = filter (\<lambda>e. \<not> under ''.tmp/microsite'' (fst e))
                   (filter (\<lambda>e. \<not> under ''dist'' (fst e)) (files fs))"
    "dirs fsB = dirs fs - Collect (under ''dist'') - Collect (under ''.tmp/microsite'')
                \<union> {''dist'', ''.tmp'', ''.tmp/microsite''}"
    "fs1 = fsB \<or> (\<exists>fls. readDir fsB ''src/public'' = Inr fls
        \<and> all_seq (\<lambda>file s. copyFile s (resolve file)
                     (resolve (''./dist/'' @ drop (length ''src/public/'') file))) fls fsB
          = Inr fs1)"
proof -
  define fsA where "fsA = fs\<lparr>files := filter (\<lambda>e. \<not> under ''.tmp/microsite'' (fst e))
                   (filter (\<lambda>e. \<not> under ''dist'' (fst e)) (files fs)),
      dirs := dirs fs - Collect (under ''dist'') - Collect (under ''.tmp/microsite'')\<rparr>"
  have rm: "all_seq (\<lambda>p s. rmdir_recursive s (resolve p)) [''./dist'', ''./.tmp/microsite''] fs
      = Inr fsA"
    by (simp add: rmdir_recursive_def resolve_consts fsA_def)
  from assms obtain fsB where mk: "all_seq (\<lambda>p s. mkdirp s (resolve p))
      [''./dist'', ''./.tmp/microsite''] fsA = Inr fsB"
    and rest: "andThen (stat_isDirectory fsB (resolve ''./src/public'')) (\<lambda>isDirectory.
        if isDirectory then
          andThen (readDir fsB (resolve ''./src/public'')) (\<lambda>fls.
            all_seq (\<lambda>file s. copyFile s (resolve file)
                       (resolve (''./dist/'' @ drop (length ''src/public/'') file)))
              fls fsB)
        else Inr fsB) = Inr fs1"
    unfolding prepare_def Let_def rm andThen_simps andThen_Inr_iff by blast
  from mk obtain fsm where "mkdirp fsA ''dist'' = Inr fsm" "mkdirp fsm ''.tmp/microsite'' = Inr fsB"
    by (auto simp add: resolve_consts andThen_Inr_iff)
  then have B: "files fsB = files fsA"
    "dirs fsB = dirs fsA \<union> {''dist'', ''.tmp'', ''.tmp/microsite''}"
    by (auto dest!: mkdirp_Inr simp add: ancestors_consts)
  from rest have "fs1 = fsB \<or> (\<exists>fls. readDir fsB ''src/public'' = Inr fls
        \<and> all_seq (\<lambda>file s. copyFile s (resolve file)
                     (resolve (''./dist/'' @ drop (length ''src/public/'') file))) fls fsB
          = Inr fs1)"
    by (auto simp add: andThen_Inr_iff resolve_consts split: if_splits)
  with B show ?thesis using that by (simp add: fsA_def)
qed

section \<open>Missing global assets\<close>


lemma global_paths:
  "resolve (OUTPUT_DIR @ ''/'' @ strip_ext (basename ''src/global.ts'') @ ''.js'')
     = ''.tmp/microsite/global.js''"
  "resolve (OUTPUT_DIR @ ''/'' @ ''global.legacy.js'') = ''.tmp/microsite/global.legacy.js''"
  "strip_ext ''.tmp/microsite/global.js'' @ ''.css'' = ''.tmp/microsite/global.css''"
  "strip_ext ''.tmp/microsite/global.legacy.js'' @ ''.css'' = ''.tmp/microsite/global.legacy.css''"
  "parent ''.tmp/microsite/global.js'' = ''.tmp/microsite''"
  "parent ''.tmp/microsite/global.legacy.js'' = ''.tmp/microsite''"
  by (simp_all add: path_defs OUTPUT_DIR_def parent_def)

lemma writeGlobal_unfold:
  "writeGlobal env fs =
     andThen (rollup env ES2018 GlobalPlugins ''src/global.ts'') (\<lambda>global.
     andThen (rollup env ES5 GlobalPlugins ''src/global.ts'') (\<lambda>legacy.
     andThen (write_chunk fs ''.tmp/microsite/global.js'' global) (\<lambda>fs1.
       write_chunk fs1 ''.tmp/microsite/global.legacy.js'' legacy)))"
  unfolding writeGlobal_def bundle_write_dir_def bundle_write_file_def global_paths ..

lemma writeGlobal_Inr:
  assumes "writeGlobal env fs = Inr fs'"
  obtains global legacy fsm where
    "rollup env ES2018 GlobalPlugins ''src/global.ts'' = Inr global"
    "rollup env ES5 GlobalPlugins ''src/global.ts'' = Inr legacy"
    "write_chunk fs ''.tmp/microsite/global.js'' global = Inr fsm"
    "write_chunk fsm ''.tmp/microsite/global.legacy.js'' legacy = Inr fs'"
  using assms unfolding writeGlobal_unfold andThen_Inr_iff by blast

lemma write_bundle_eq: "write_bundle bp fs = write_chunk fs (staged_script (snd bp)) (fst bp)"
  by (simp add: write_bundle_def bundle_write_dir_def staged_script_def)

lemma writePages_Inr:
  assumes "writePages env fs = Inr (fs', log)"
  shows "(fs' = fs \<and> (\<exists>e. log = [Log_error e]
            \<and> all_map (rollup env ES2018 PagePlugins) (glob_pages fs) = Inl e))
       \<or> (log = [] \<and> (\<exists>bundles. all_map (rollup env ES2018 PagePlugins) (glob_pages fs) = Inr bundles
            \<and> all_seq write_bundle (zip bundles (glob_pages fs)) fs = Inr fs'))"
  using assms
  by (auto simp add: writePages_def Let_def andThen_Inr_iff split: sum.splits)



lemma compile_stage_rollup_only:
  assumes "rollup env' = rollup env"
  shows "compile_stage env' fs = compile_stage env fs"
proof -
  have "writeGlobal env' fs = writeGlobal env fs"
    by (simp add: writeGlobal_def assms)
  moreover have "writePages env' = writePages env"
    by (rule ext) (simp add: writePages_def assms)
  ultimately show ?thesis by (simp add: compile_stage_def)
qed










section \<open>Cleanup\<close>

lemma map_of_filter_not_under:
  "map_of (filter (\<lambda>e. \<not> under d (fst e)) xs) k = (if under d k then None else map_of xs k)"
  by (induction xs) auto

lemma cleanup_unfold:
  "cleanup fs =
     (let fsA = fs\<lparr>files := filter (\<lambda>e. \<not> under ''.tmp/microsite'' (fst e)) (files fs),
                      dirs := dirs fs - Collect (under ''.tmp/microsite'')\<rparr>
      in andThen (readDir fsA ''.tmp'')
           (\<lambda>fls. if fls = [] then rmdir fsA ''.tmp'' else Inr fsA))"
  by (simp add: cleanup_def resolve_consts rmdir_recursive_def Let_def cong: if_cong)

lemma write_page_Inr:
  assumes "write_page out fs = Inr fs'"
  shows "files fs' = AList.update (resolve (''./dist/'' @ fst out @ ''.html'')) (snd out) (files fs)"
  using assms
  by (auto simp add: write_page_def andThen_Inr_iff dest!: mkdirp_Inr writeFile_Inr)

lemma write_pages_keep_files:
  assumes "all_seq write_page outp fs = Inr fs'" and "is_file fs p"
  shows "is_file fs' p"
proof (rule all_seq_invariant [where I = "\<lambda>s. is_file s p", OF assms])
  fix x t t'
  assume w: "write_page x t = Inr t'" and p: "is_file t p"
  have "fst ` set (files t') = {resolve (''./dist/'' @ fst x @ ''.html'')} \<union> fst ` set (files t)"
    unfolding write_page_Inr [OF w] by (rule dom_update)
  with p show "is_file t' p"
    unfolding is_file_keys by blast
qed

lemma write_pages_written:
  "all_seq write_page outp fs = Inr fs' \<Longrightarrow> out \<in> set outp \<Longrightarrow>
     is_file fs' (resolve (''./dist/'' @ fst out @ ''.html''))"
proof (induction outp arbitrary: fs)
  case Nil
  then show ?case by simp
next
  case (Cons a outp)
  from Cons.prems(1) obtain fsm where a: "write_page a fs = Inr fsm"
    and rest: "all_seq write_page outp fsm = Inr fs'"
    by (auto simp add: andThen_Inr_iff)
  show ?case
  proof (cases "out = a")
    case True
    have "fst ` set (files fsm)
        = {resolve (''./dist/'' @ fst a @ ''.html'')} \<union> fst ` set (files fs)"
      unfolding write_page_Inr [OF a] by (rule dom_update)
    then have "is_file fsm (resolve (''./dist/'' @ fst a @ ''.html''))"
      unfolding is_file_keys by blast
    with rest True show ?thesis using write_pages_keep_files by blast
  next
    case False
    with Cons.prems(2) have "out \<in> set outp" by simp
    with Cons.IH [OF rest] show ?thesis .
  qed
qed

lemma cleanup_exact:
  assumes "cleanup fs = Inr fs'"
  shows "files fs' = filter (\<lambda>e. \<not> under ''.tmp/microsite'' (fst e)) (files fs)"
    and "''.tmp'' \<in> dirs fs"
    and "if list_ex (\<lambda>e. under ''.tmp'' (fst e) \<and> \<not> under ''.tmp/microsite'' (fst e)) (files fs)
         then dirs fs' = dirs fs - Collect (under ''.tmp/microsite'')
         else dirs fs' = dirs fs - Collect (under ''.tmp/microsite'') - {''.tmp''}
              \<and> \<not> (\<exists>d \<in> dirs fs. under ''.tmp'' d \<and> d \<noteq> ''.tmp''
                       \<and> \<not> under ''.tmp/microsite'' d)"
proof -
  define fsA where "fsA = fs\<lparr>files := filter (\<lambda>e. \<not> under ''.tmp/microsite'' (fst e)) (files fs),
      dirs := dirs fs - Collect (under ''.tmp/microsite'')\<rparr>"
  have "andThen (readDir fsA ''.tmp'')
      (\<lambda>fls. if fls = [] then rmdir fsA ''.tmp'' else Inr fsA) = Inr fs'"
    using assms unfolding cleanup_unfold Let_def fsA_def .
  then obtain fls where fls: "readDir fsA ''.tmp'' = Inr fls"
    and fin: "(if fls = [] then rmdir fsA ''.tmp'' else Inr fsA) = Inr fs'"
    unfolding andThen_Inr_iff by blast
  from fls have nofile: "\<not> is_file fsA ''.tmp''" and tmp: "''.tmp'' \<in> dirs fsA"
    and fls_eq: "fls = filter (\<lambda>q. under ''.tmp'' q \<and> q \<noteq> ''.tmp'') (map fst (files fsA))"
    by (auto simp add: readDir_def is_dir_def split: if_splits)
  show "files fs' = filter (\<lambda>e. \<not> under ''.tmp/microsite'' (fst e)) (files fs)"
    using fin by (auto simp add: rmdir_def fsA_def split: if_splits)
  from tmp show "''.tmp'' \<in> dirs fs" by (simp add: fsA_def)
  have ex: "list_ex (\<lambda>e. under ''.tmp'' (fst e) \<and> \<not> under ''.tmp/microsite'' (fst e)) (files fs)
      \<longleftrightarrow> fls \<noteq> []"
  proof -
    have "fls \<noteq> [] \<longleftrightarrow> (\<exists>q \<in> fst ` set (files fsA). under ''.tmp'' q \<and> q \<noteq> ''.tmp'')"
      by (auto simp add: fls_eq filter_empty_conv)
    also have "\<dots> \<longleftrightarrow> (\<exists>q \<in> fst ` set (files fsA). under ''.tmp'' q)"
      (is "?L \<longleftrightarrow> ?R")
    proof
      assume ?L then show ?R by blast
    next
      have nk: "q \<noteq> ''.tmp''" if "q \<in> fst ` set (files fsA)" for q
        using nofile that unfolding is_file_keys by blast
      assume ?R
      then obtain q where "q \<in> fst ` set (files fsA)" "under ''.tmp'' q" by blast
      with nk [of q] show ?L by blast
    qed
    also have "\<dots> \<longleftrightarrow> (\<exists>e \<in> set (files fs). under ''.tmp'' (fst e)
        \<and> \<not> under ''.tmp/microsite'' (fst e))"
      by (force simp add: fsA_def)
    finally show ?thesis by (simp add: list_ex_iff)
  qed
  show "if list_ex (\<lambda>e. under ''.tmp'' (fst e) \<and> \<not> under ''.tmp/microsite'' (fst e)) (files fs)
         then dirs fs' = dirs fs - Collect (under ''.tmp/microsite'')
         else dirs fs' = dirs fs - Collect (under ''.tmp/microsite'') - {''.tmp''}
              \<and> \<not> (\<exists>d \<in> dirs fs. under ''.tmp'' d \<and> d \<noteq> ''.tmp''
                       \<and> \<not> under ''.tmp/microsite'' d)"
  proof (cases "fls = []")
    case False
    with fin have "fs' = fsA" by simp
    with False ex show ?thesis by (simp add: fsA_def)
  next
    case True
    with fin have "rmdir fsA ''.tmp'' = Inr fs'" by simp
    then have "fs' = fsA\<lparr>dirs := dirs fsA - {''.tmp''}\<rparr>"
      and "\<not> (\<exists>d \<in> dirs fsA. under ''.tmp'' d \<and> d \<noteq> ''.tmp'')"
      by (auto simp add: rmdir_def split: if_splits)
    with True ex show ?thesis by (auto simp add: fsA_def)
  qed
qed

lemma cleanup_keeps_tmp_iff:
  assumes "cleanup fs = Inr fs'"
  shows "''.tmp'' \<in> dirs fs' \<longleftrightarrow>
    list_ex (\<lambda>e. under ''.tmp'' (fst e) \<and> \<not> under ''.tmp/microsite'' (fst e)) (files fs)"
proof -
  have "\<not> under ''.tmp/microsite'' ''.tmp''" by (simp add: under_def)
  with cleanup_exact(2,3) [OF assms] show ?thesis
    by (cases "list_ex (\<lambda>e. under ''.tmp'' (fst e) \<and> \<not> under ''.tmp/microsite'' (fst e))
      (files fs)") simp_all
qed

lemmas cache_defs = with_cache_def site_def site_prepared_def site_staged_def site_copied_def
  site_written_def site_built_def

lemma prepare_site_cache: "prepare (with_cache site) = Inr (with_cache site_prepared)"
  by (simp add: cache_defs build_defs fs_defs path_defs set_eval cong: eval_cong)

lemma compile_site_cache:
  "compile_stage good_env (with_cache site_prepared) = Inr (with_cache site_staged, [])"
  by (simp add: cache_defs site_defs build_defs fs_defs path_defs set_eval cong: eval_cong)

lemma load_site_cache:
  "load_stage good_env (with_cache site_staged) =
     Inr (''body{color:red}'', True, with_cache site_copied, site_styles, site_pages)"
  by (simp add: cache_defs site_styles_def site_pages_def site_defs build_defs fs_defs path_defs
      cong: eval_cong)

lemma write_site_cache:
  "all_seq write_page site_output (with_cache site_copied) = Inr (with_cache site_written)"
  by (simp add: cache_defs site_output_def build_defs fs_defs path_defs set_eval cong: eval_cong)

lemma cleanup_site_cache: "cleanup (with_cache site_written) = Inr (with_cache site_built)"
  by (simp add: cache_defs build_defs fs_defs path_defs set_eval cong: eval_cong)

lemma build_site_cache: "build good_env (with_cache site) = Done (with_cache site_built) []"
  unfolding build_Done_iff
  using prepare_site_cache compile_site_cache load_site_cache render_site write_site_cache
    cleanup_site_cache
  by blast

text \<open>
  C8: in a run that reaches the end of \<^verbatim>\<open>build\<close>, \<^verbatim>\<open>cleanup\<close> is applied to the file
  system \<open>fs4\<close> that the writes of the rendered pages leave, in which every rendered page
  is a file. It removes the files and the directories at and below \<^verbatim>\<open>.tmp/microsite\<close>
  and no other file. It removes the directory \<^verbatim>\<open>.tmp\<close> exactly when no file is left
  below it, and then no directory was left below it either, and removes no other
  directory; it leaves \<^verbatim>\<open>.tmp\<close> in place when a file is left below it. So nothing of
  the staging directory is left after the run.
\<close>

theorem staging_removed_after_build:
  assumes "build env fs = Done fs' log"
  shows "(\<forall>p. under ''.tmp/microsite'' p \<longrightarrow> \<not> is_file fs' p \<and> p \<notin> dirs fs')
     \<and> (\<exists>fs1 fs2 gs hs fs3 st pages outp fs4.
          prepare fs = Inr fs1 \<and> compile_stage env fs1 = Inr (fs2, log)
          \<and> load_stage env fs2 = Inr (gs, hs, fs3, st, pages)
          \<and> render_pages env hs gs st pages [] = Inr outp
          \<and> all_seq write_page outp fs3 = Inr fs4
          \<and> (\<forall>out \<in> set outp. is_file fs4 (resolve (''./dist/'' @ fst out @ ''.html'')))
          \<and> cleanup fs4 = Inr fs'
          \<and> files fs' = filter (\<lambda>e. \<not> under ''.tmp/microsite'' (fst e)) (files fs4)
          \<and> ''.tmp'' \<in> dirs fs4
          \<and> (if list_ex (\<lambda>e. under ''.tmp'' (fst e) \<and> \<not> under ''.tmp/microsite'' (fst e))
                   (files fs4)
              then dirs fs' = dirs fs4 - Collect (under ''.tmp/microsite'')
              else dirs fs' = dirs fs4 - Collect (under ''.tmp/microsite'') - {''.tmp''}
                   \<and> \<not> (\<exists>d \<in> dirs fs4. under ''.tmp'' d \<and> d \<noteq> ''.tmp''
                            \<and> \<not> under ''.tmp/microsite'' d))
          \<and> (''.tmp'' \<in> dirs fs' \<longleftrightarrow>
               list_ex (\<lambda>e. under ''.tmp'' (fst e) \<and> \<not> under ''.tmp/microsite'' (fst e))
                 (files fs4)))"
proof -
  from assms obtain fs1 fs2 gs hs fs3 st pages outp fs4 where
    chain: "prepare fs = Inr fs1" "compile_stage env fs1 = Inr (fs2, log)"
      "load_stage env fs2 = Inr (gs, hs, fs3, st, pages)"
      "render_pages env hs gs st pages [] = Inr outp"
    and w: "all_seq write_page outp fs3 = Inr fs4"
    and c: "cleanup fs4 = Inr fs'"
    unfolding build_Done_iff by blast
  note x = cleanup_exact [OF c]
  have written: "\<forall>out \<in> set outp. is_file fs4 (resolve (''./dist/'' @ fst out @ ''.html''))"
    using write_pages_written [OF w] by (intro ballI)
  have d: "dirs fs' \<subseteq> dirs fs4 - Collect (under ''.tmp/microsite'')"
    using x(3) by (auto split: if_splits)
  have 1: "\<forall>p. under ''.tmp/microsite'' p \<longrightarrow> \<not> is_file fs' p \<and> p \<notin> dirs fs'"
  proof (intro allI impI conjI)
    fix p assume u: "under ''.tmp/microsite'' p"
    show "\<not> is_file fs' p" using u by (simp add: x(1) is_file_def map_of_filter_not_under)
    show "p \<notin> dirs fs'" using d u by blast
  qed
  have 2: "\<exists>fs1 fs2 gs hs fs3 st pages outp fs4.
          prepare fs = Inr fs1 \<and> compile_stage env fs1 = Inr (fs2, log)
          \<and> load_stage env fs2 = Inr (gs, hs, fs3, st, pages)
          \<and> render_pages env hs gs st pages [] = Inr outp
          \<and> all_seq write_page outp fs3 = Inr fs4
          \<and> (\<forall>out \<in> set outp. is_file fs4 (resolve (''./dist/'' @ fst out @ ''.html'')))
          \<and> cleanup fs4 = Inr fs'
          \<and> files fs' = filter (\<lambda>e. \<not> under ''.tmp/microsite'' (fst e)) (files fs4)
          \<and> ''.tmp'' \<in> dirs fs4
          \<and> (if list_ex (\<lambda>e. under ''.tmp'' (fst e) \<and> \<not> under ''.tmp/microsite'' (fst e))
                   (files fs4)
              then dirs fs' = dirs fs4 - Collect (under ''.tmp/microsite'')
              else dirs fs' = dirs fs4 - Collect (under ''.tmp/microsite'') - {''.tmp''}
                   \<and> \<not> (\<exists>d \<in> dirs fs4. under ''.tmp'' d \<and> d \<noteq> ''.tmp''
                            \<and> \<not> under ''.tmp/microsite'' d))
          \<and> (''.tmp'' \<in> dirs fs' \<longleftrightarrow>
               list_ex (\<lambda>e. under ''.tmp'' (fst e) \<and> \<not> under ''.tmp/microsite'' (fst e))
                 (files fs4))"
    using chain w written c x cleanup_keeps_tmp_iff [OF c] by (intro exI conjI)
  from 1 2 show ?thesis by (rule conjI)
qed

theorem staging_removed_after_build_witness:
  "build good_env site = Done site_built []
   \<and> \<not> is_file site_built ''.tmp/microsite/global.js''
   \<and> ''.tmp/microsite'' \<notin> dirs site_built \<and> ''.tmp'' \<notin> dirs site_built
   \<and> build good_env (with_cache site) = Done (with_cache site_built) []
   \<and> \<not> is_file (with_cache site_built) ''.tmp/microsite/global.js''
   \<and> ''.tmp/microsite'' \<notin> dirs (with_cache site_built)
   \<and> ''.tmp'' \<in> dirs (with_cache site_built)
   \<and> is_file (with_cache site_built) ''.tmp/cache/data''
   \<and> is_file (with_cache site_built) ''dist/index.html''"
proof -
  have a: "\<forall>p. under ''.tmp/microsite'' p \<longrightarrow> \<not> is_file site_built p \<and> p \<notin> dirs site_built"
    using staging_removed_after_build [OF build_site] by (rule conjunct1)
  have b: "\<forall>p. under ''.tmp/microsite'' p \<longrightarrow>
      \<not> is_file (with_cache site_built) p \<and> p \<notin> dirs (with_cache site_built)"
    using staging_removed_after_build [OF build_site_cache] by (rule conjunct1)
  have u: "under ''.tmp/microsite'' ''.tmp/microsite/global.js''"
    "under ''.tmp/microsite'' ''.tmp/microsite''"
    by (simp_all add: under_def)
  from a u have "\<not> is_file site_built ''.tmp/microsite/global.js''"
    "''.tmp/microsite'' \<notin> dirs site_built" by blast+
  moreover from b u have "\<not> is_file (with_cache site_built) ''.tmp/microsite/global.js''"
    "''.tmp/microsite'' \<notin> dirs (with_cache site_built)" by blast+
  moreover have "''.tmp'' \<notin> dirs site_built" "''.tmp'' \<in> dirs (with_cache site_built)"
    "is_file (with_cache site_built) ''.tmp/cache/data''"
    "is_file (with_cache site_built) ''dist/index.html''"
    by (simp_all add: site_built_def with_cache_def is_file_def)
  ultimately show ?thesis using build_site build_site_cache by (intro conjI)
qed

section \<open>Two runs\<close>

lemma andThen_assoc: "andThen (andThen r f) g = andThen r (\<lambda>x. andThen (f x) g)"
  by (cases r) simp_all

lemma prepare_cleared:
  "prepare fs =
     (let fsA = fs\<lparr>files := filter (\<lambda>e. kept (fst e)) (files fs),
                     dirs := dirs fs - Collect (under ''dist'') - Collect (under ''.tmp/microsite'')\<rparr>
      in andThen (mkdirp fsA ''dist'') (\<lambda>fsm.
         andThen (mkdirp fsm ''.tmp/microsite'') (\<lambda>fs2.
         andThen (stat_isDirectory fs2 ''src/public'') (\<lambda>isDirectory.
           if isDirectory then
             andThen (readDir fs2 ''src/public'') (\<lambda>fls.
               all_seq (\<lambda>file s. copyFile s (resolve file)
                          (resolve (''./dist/'' @ drop (length ''src/public/'') file)))
                 fls fs2)
           else Inr fs2))))"
proof -
  have "filter (\<lambda>e. \<not> under ''.tmp/microsite'' (fst e))
      (filter (\<lambda>e. \<not> under ''dist'' (fst e)) xs) = filter (\<lambda>e. kept (fst e)) xs"
    for xs :: "(path \<times> string) list"
    by (induction xs) (auto simp add: kept_def)
  then show ?thesis
    by (simp add: prepare_def rmdir_recursive_def resolve_consts Let_def andThen_assoc
        cong: if_cong)
qed

lemma mkdirp_output_dirs:
  "andThen (mkdirp fsA ''dist'') (\<lambda>fsm. andThen (mkdirp fsm ''.tmp/microsite'') k)
     = (if is_file fsA ''dist'' then Inl (EEXIST ''dist'')
        else if is_file fsA ''.tmp'' then Inl (ENOTDIR ''.tmp/microsite'')
        else if is_file fsA ''.tmp/microsite'' then Inl (EEXIST ''.tmp/microsite'')
        else k (fsA\<lparr>dirs := insert ''dist'' (insert ''.tmp'' (insert ''.tmp/microsite'' (dirs fsA)))\<rparr>))"
  by (auto simp add: mkdirp_def ancestors_consts is_file_def insert_commute)

lemma prepare_source_only:
  assumes "same_files kept fs gs" and "source_dirs gs = source_dirs fs"
  shows "prepare gs = prepare fs"
proof -
  define A where "A h = h\<lparr>files := filter (\<lambda>e. kept (fst e)) (files h),
      dirs := dirs h - Collect (under ''dist'') - Collect (under ''.tmp/microsite'')\<rparr>" for h :: fsys
  define B where "B h = (A h)\<lparr>dirs := insert ''dist'' (insert ''.tmp''
      (insert ''.tmp/microsite'' (dirs (A h))))\<rparr>" for h
  have f: "files (A gs) = files (A fs)"
    using assms(1) by (simp add: A_def same_files_def)
  have "insert ''.tmp'' (dirs (A h)) = insert ''.tmp'' (source_dirs h)" for h
    by (auto simp add: A_def source_dirs_def)
  then have "insert ''.tmp'' (dirs (A gs)) = insert ''.tmp'' (dirs (A fs))"
    using assms(2) by simp
  then have d: "dirs (B gs) = dirs (B fs)"
    unfolding B_def by auto
  have B: "B gs = B fs"
    using f d by (simp add: B_def A_def)
  have fx: "is_file (A gs) p = is_file (A fs) p" for p
    by (simp add: is_file_def f)
  show ?thesis
    unfolding prepare_cleared Let_def mkdirp_output_dirs A_def [symmetric] fx B_def [symmetric] B ..
qed

text \<open>
  C9: the outcome of a run depends on the file system only through the source tree: two
  file systems with the same files outside the output directory and the staging
  directory, and the same directories outside them (the directory \<^verbatim>\<open>.tmp\<close> set
  aside), give the same outcome for the same compiler, loader, shell and renderer; the
  same final file system, so the same HTML files with the same content, and the same
  log.
\<close>

theorem build_depends_on_source_tree:
  assumes "same_files kept fs gs" and "source_dirs gs = source_dirs fs"
  shows "build env gs = build env fs"
  by (simp add: build_def prepare_source_only [OF assms])

theorem build_depends_on_source_tree_witness:
  "same_files kept site site_built \<and> source_dirs site_built = source_dirs site
   \<and> site_built \<noteq> site
   \<and> build good_env site = Done site_built []
   \<and> build good_env site_built = Done site_built []"
proof -
  have 1: "same_files kept site site_built"
    by (simp add: same_files_def kept_def under_def site_def site_built_def)
  have 2: "source_dirs site_built = source_dirs site"
    by (simp add: source_dirs_def site_def site_built_def under_def set_eval)
  have 3: "site_built \<noteq> site"
    by (simp add: site_def site_built_def)
  from build_depends_on_source_tree [OF 1 2, of good_env] build_site
  have "build good_env site_built = Done site_built []" by simp
  with 1 2 3 build_site show ?thesis by (intro conjI)
qed

section \<open>What the compilation stage and the loading of the pages change\<close>

lemma not_html:
  "\<not> endsWith (x @ y @ ''.js'') ''.html''" "\<not> endsWith (x @ y @ ''.css'') ''.html''"
  "\<not> endsWith ''.tmp/microsite/global.js'' ''.html''"
  "\<not> endsWith ''.tmp/microsite/global.css'' ''.html''"
  "\<not> endsWith ''.tmp/microsite/global.legacy.js'' ''.html''"
  "\<not> endsWith ''.tmp/microsite/global.legacy.css'' ''.html''"
  "\<not> endsWith ''dist/index.js'' ''.html''"
  "\<not> endsWith ''dist/index.legacy.js'' ''.html''"
  by (simp_all add: endsWith_def suffix_to_prefix)

lemma writeGlobal_same_files:
  assumes "writeGlobal env fs = Inr fs'"
    and "\<not> P ''.tmp/microsite/global.js''" and "\<not> P ''.tmp/microsite/global.css''"
    and "\<not> P ''.tmp/microsite/global.legacy.js''" and "\<not> P ''.tmp/microsite/global.legacy.css''"
  shows "same_files P fs fs'"
proof -
  from assms(1) obtain global legacy fsm where
    1: "write_chunk fs ''.tmp/microsite/global.js'' global = Inr fsm"
    and 2: "write_chunk fsm ''.tmp/microsite/global.legacy.js'' legacy = Inr fs'"
    by (rule writeGlobal_Inr)
  have "same_files P fs fsm"
    using write_chunk_same_files [OF 1, of P] assms(2,3) by (simp add: global_paths)
  moreover have "same_files P fsm fs'"
    using write_chunk_same_files [OF 2, of P] assms(4,5) by (simp add: global_paths)
  ultimately show ?thesis by (rule same_files_trans)
qed

lemma writeGlobal_dirs:
  assumes "writeGlobal env fs = Inr fs'"
  shows "dirs fs' = dirs fs \<union> {''.tmp'', ''.tmp/microsite''}"
proof -
  from assms obtain global legacy fsm where
    1: "write_chunk fs ''.tmp/microsite/global.js'' global = Inr fsm"
    and 2: "write_chunk fsm ''.tmp/microsite/global.legacy.js'' legacy = Inr fs'"
    by (rule writeGlobal_Inr)
  from write_chunk_Inr(1) [OF 1] write_chunk_Inr(1) [OF 2] show ?thesis
    unfolding global_paths ancestors_consts by auto
qed

lemma glob_pages_is_page: "page \<in> set (glob_pages fs) \<Longrightarrow> is_page page"
  by (simp add: glob_pages_def)

lemma write_bundle_same_files:
  assumes "write_bundle bp fs = Inr fs'" and "is_page (snd bp)"
    and "\<And>r. \<not> P (pages_root @ r @ ''.js'')" and "\<And>r. \<not> P (pages_root @ r @ ''.css'')"
  shows "same_files P fs fs'"
proof -
  from staged_script_form [OF assms(2)] obtain r where r: "tidy r"
    and s: "staged_script (snd bp) = pages_root @ r @ ''.js''" by blast
  from assms(1) have w: "write_chunk fs (pages_root @ r @ ''.js'') (fst bp) = Inr fs'"
    by (simp add: write_bundle_eq s)
  show ?thesis
    using write_chunk_same_files [OF w, of P] assms(3,4) [of r]
    by (simp add: strip_ext_staged [OF r])
qed

lemma writePages_same_files:
  assumes "writePages env fs = Inr (fs', log)"
    and "\<And>r. \<not> P (pages_root @ r @ ''.js'')" and "\<And>r. \<not> P (pages_root @ r @ ''.css'')"
  shows "same_files P fs fs'"
proof -
  from writePages_Inr [OF assms(1)] consider "fs' = fs"
    | bundles where "all_seq write_bundle (zip bundles (glob_pages fs)) fs = Inr fs'"
    by blast
  then show ?thesis
  proof cases
    case 1
    then show ?thesis by simp
  next
    case 2
    show ?thesis
    proof (rule all_seq_invariant [where I = "same_files P fs", OF 2])
      show "same_files P fs fs" by simp
    next
      fix x t t'
      assume x: "x \<in> set (zip bundles (glob_pages fs))" and w: "write_bundle x t = Inr t'"
        and I: "same_files P fs t"
      from x have "snd x \<in> set (glob_pages fs)"
        using set_zip_rightD [of "fst x" "snd x" bundles "glob_pages fs"] by simp
      then have "is_page (snd x)" by (rule glob_pages_is_page)
      with w have "same_files P t t'" using assms(2,3) by (rule write_bundle_same_files)
      with I show "same_files P fs t'" by (rule same_files_trans)
    qed
  qed
qed

lemma write_bundle_dirs:
  assumes "write_bundle bp fs = Inr fs'"
  shows "dirs fs \<subseteq> dirs fs'"
  using write_chunk_Inr(1) [of fs "staged_script (snd bp)" "fst bp" fs'] assms
  by (auto simp add: write_bundle_eq)

lemma writePages_dirs:
  assumes "writePages env fs = Inr (fs', log)"
  shows "dirs fs \<subseteq> dirs fs'"
proof -
  from writePages_Inr [OF assms(1)] consider "fs' = fs"
    | bundles where "all_seq write_bundle (zip bundles (glob_pages fs)) fs = Inr fs'"
    by blast
  then show ?thesis
  proof cases
    case 1
    then show ?thesis by simp
  next
    case 2
    show ?thesis
    proof (rule all_seq_invariant [where I = "\<lambda>t. dirs fs \<subseteq> dirs t", OF 2])
      show "dirs fs \<subseteq> dirs fs" by simp
    next
      fix x t t'
      assume "write_bundle x t = Inr t'" and "dirs fs \<subseteq> dirs t"
      then show "dirs fs \<subseteq> dirs t'" using write_bundle_dirs by blast
    qed
  qed
qed

lemma compile_stage_Inr:
  assumes "compile_stage env fs = Inr (fs', log)"
  obtains fsg where "writeGlobal env fs = Inr fsg" and "writePages env fsg = Inr (fs', log)"
  using assms by (auto simp add: compile_stage_def andThen_Inr_iff)

lemma compile_stage_same_files:
  assumes "compile_stage env fs = Inr (fs', log)"
    and "\<not> P ''.tmp/microsite/global.js''" and "\<not> P ''.tmp/microsite/global.css''"
    and "\<not> P ''.tmp/microsite/global.legacy.js''" and "\<not> P ''.tmp/microsite/global.legacy.css''"
    and "\<And>r. \<not> P (pages_root @ r @ ''.js'')" and "\<And>r. \<not> P (pages_root @ r @ ''.css'')"
  shows "same_files P fs fs'"
proof -
  from assms(1) obtain fsg where g: "writeGlobal env fs = Inr fsg"
    and p: "writePages env fsg = Inr (fs', log)" by (rule compile_stage_Inr)
  from g assms(2-5) have "same_files P fs fsg" by (rule writeGlobal_same_files)
  moreover from p assms(6,7) have "same_files P fsg fs'" by (rule writePages_same_files)
  ultimately show ?thesis by (rule same_files_trans)
qed

lemma compile_stage_dirs:
  assumes "compile_stage env fs = Inr (fs', log)"
  shows "dirs fs \<subseteq> dirs fs'" and "''.tmp/microsite'' \<in> dirs fs'"
proof -
  from assms(1) obtain fsg where g: "writeGlobal env fs = Inr fsg"
    and p: "writePages env fsg = Inr (fs', log)" by (rule compile_stage_Inr)
  from writeGlobal_dirs [OF g] writePages_dirs [OF p]
  show "dirs fs \<subseteq> dirs fs'" and "''.tmp/microsite'' \<in> dirs fs'" by auto
qed

lemma copy_global_scripts_Inr:
  assumes "copy_global_scripts fs = Inr fs'"
  shows "\<exists>a b. map_of (files fs) ''.tmp/microsite/global.js'' = Some a
     \<and> map_of (files fs) ''.tmp/microsite/global.legacy.js'' = Some b
     \<and> fs' = fs\<lparr>files := AList.update ''dist/index.legacy.js'' b
                   (AList.update ''dist/index.js'' a (files fs))\<rparr>"
proof -
  from assms obtain fsm where 1: "copyFile fs ''.tmp/microsite/global.js'' ''dist/index.js'' = Inr fsm"
    and 2: "copyFile fsm ''.tmp/microsite/global.legacy.js'' ''dist/index.legacy.js'' = Inr fs'"
    by (auto simp add: copy_global_scripts_def resolve_consts andThen_Inr_iff)
  from copyFile_Inr [OF 1] obtain a where a: "map_of (files fs) ''.tmp/microsite/global.js'' = Some a"
    and fsm: "fsm = fs\<lparr>files := AList.update ''dist/index.js'' a (files fs)\<rparr>" by blast
  from copyFile_Inr [OF 2] obtain b where b: "map_of (files fsm) ''.tmp/microsite/global.legacy.js'' = Some b"
    and fs': "fs' = fsm\<lparr>files := AList.update ''dist/index.legacy.js'' b (files fsm)\<rparr>" by blast
  from b have "map_of (files fs) ''.tmp/microsite/global.legacy.js'' = Some b"
    by (simp add: fsm update_conv')
  with a fsm fs' show ?thesis by simp
qed

lemma load_stage_state:
  assumes "load_stage env fs = Inr (gs, hs, fs1, st, pages)"
  shows "readFile fs ''.tmp/microsite/global.css'' = Inr gs"
    and "\<exists>v. readFile fs ''.tmp/microsite/global.js'' = Inr v \<and> hs = (trim v \<noteq> [])"
    and "if hs then
           \<exists>a b. map_of (files fs) ''.tmp/microsite/global.js'' = Some a
             \<and> map_of (files fs) ''.tmp/microsite/global.legacy.js'' = Some b
             \<and> fs1 = fs\<lparr>files := AList.update ''dist/index.legacy.js'' b
                   (AList.update ''dist/index.js'' a (files fs))\<rparr>
         else fs1 = fs"
proof -
  note l = assms [unfolded load_stage_Inr_iff]
  from l show "readFile fs ''.tmp/microsite/global.css'' = Inr gs" by (rule conjunct1)
  from l show "\<exists>v. readFile fs ''.tmp/microsite/global.js'' = Inr v \<and> hs = (trim v \<noteq> [])"
    by (rule conjunct1 [OF conjunct2])
  from l have "if hs then copy_global_scripts fs = Inr fs1 else fs1 = fs"
    by (rule conjunct1 [OF conjunct2 [OF conjunct2]])
  then show "if hs then
           \<exists>a b. map_of (files fs) ''.tmp/microsite/global.js'' = Some a
             \<and> map_of (files fs) ''.tmp/microsite/global.legacy.js'' = Some b
             \<and> fs1 = fs\<lparr>files := AList.update ''dist/index.legacy.js'' b
                   (AList.update ''dist/index.js'' a (files fs))\<rparr>
         else fs1 = fs"
    using copy_global_scripts_Inr [of fs fs1] by (cases hs) simp_all
qed

lemma load_stage_same_files:
  assumes "load_stage env fs = Inr (gs, hs, fs1, st, pages)"
    and "\<not> P ''dist/index.js''" and "\<not> P ''dist/index.legacy.js''"
  shows "same_files P fs fs1"
proof (cases hs)
  case False
  with load_stage_state(3) [OF assms(1)] show ?thesis by simp
next
  case True
  with load_stage_state(3) [OF assms(1)] obtain a b where
    "fs1 = fs\<lparr>files := AList.update ''dist/index.legacy.js'' b
                   (AList.update ''dist/index.js'' a (files fs))\<rparr>" by auto
  then show ?thesis
    using assms(2,3) by (simp add: same_files_def filter_update_other)
qed

lemma load_stage_dirs:
  assumes "load_stage env fs = Inr (gs, hs, fs1, st, pages)"
  shows "dirs fs1 = dirs fs"
  using load_stage_state(3) [OF assms] by (cases hs) auto

lemma render_pages_first_throw:
  "render_pages env hs gs st pages out = Inl (name, e) \<Longrightarrow>
     \<exists>ok page rest. pages = ok @ page # rest
       \<and> (\<forall>q \<in> set ok. \<exists>c. render_page env hs gs st q = Inr c)
       \<and> fst page = name \<and> render_page env hs gs st page = Inl e"
proof (induction pages arbitrary: out)
  case Nil
  then show ?case by simp
next
  case (Cons p pages)
  show ?case
  proof (cases "render_page env hs gs st p")
    case (Inl e')
    with Cons.prems have "fst p = name" "e' = e" by simp_all
    with Inl show ?thesis by (intro exI [of _ "[]"] exI [of _ p] exI [of _ pages]) simp
  next
    case (Inr c)
    with Cons.prems have "render_pages env hs gs st pages (out @ [(fst p, c)]) = Inl (name, e)"
      by simp
    from Cons.IH [OF this] obtain ok page rest where
      "pages = ok @ page # rest" "\<forall>q \<in> set ok. \<exists>c. render_page env hs gs st q = Inr c"
      "fst page = name" "render_page env hs gs st page = Inl e" by blast
    with Inr show ?thesis
      by (intro exI [of _ "p # ok"] exI [of _ page] exI [of _ rest]) simp
  qed
qed

section \<open>A page whose rendering throws\<close>

lemma readFile_Inr_is_file: "readFile fs p = Inr v \<Longrightarrow> map_of (files fs) p = Some v"
  by (auto simp add: readFile_def split: option.splits)

lemma render_failure_outcome:
  assumes "prepare fs = Inr fs1" and "compile_stage env fs1 = Inr (fs2, log)"
    and "load_stage env fs2 = Inr (gs, hs, fs3, st, pages)"
    and "page \<in> set pages" and "render_page env hs gs st page = Inl e"
  shows "\<exists>ok q rest e'. pages = ok @ q # rest
           \<and> (\<forall>x \<in> set ok. \<exists>c. render_page env hs gs st x = Inr c)
           \<and> render_page env hs gs st q = Inl e'
           \<and> build env fs = Aborted fs3
                (log @ [Log_text (''Error building '' @ fst q), Log_error e'])"
proof -
  from render_pages_throws [OF assms(4,5)] obtain name e' where
    r: "render_pages env hs gs st pages [] = Inl (name, e')" by blast
  from render_pages_first_throw [OF r] obtain ok q rest where
    q: "pages = ok @ q # rest" "\<forall>x \<in> set ok. \<exists>c. render_page env hs gs st x = Inr c"
      "fst q = name" "render_page env hs gs st q = Inl e'" by blast
  have "build env fs = Aborted fs3 (log @ [Log_text (''Error building '' @ name), Log_error e'])"
    unfolding build_Aborted_iff using assms(1-3) r by blast
  with q show ?thesis by blast
qed

lemma stages_keep_html:
  assumes "compile_stage env fs1 = Inr (fs2, log)"
    and "load_stage env fs2 = Inr (gs, hs, fs3, st, pages)"
    and "endsWith p ''.html''"
  shows "map_of (files fs3) p = map_of (files fs1) p"
proof -
  have "same_files (\<lambda>p. endsWith p ''.html'') fs1 fs2"
    using assms(1) by (rule compile_stage_same_files) (simp_all only: not_html not_False_eq_True)
  moreover have "same_files (\<lambda>p. endsWith p ''.html'') fs2 fs3"
    using assms(2) by (rule load_stage_same_files) (simp_all only: not_html not_False_eq_True)
  ultimately have "same_files (\<lambda>p. endsWith p ''.html'') fs1 fs3" by (rule same_files_trans)
  then show ?thesis using assms(3) by (rule same_files_map_of)
qed

lemma under_staging_consts:
  "under ''.tmp/microsite'' ''.tmp/microsite/global.js''"
  "under ''.tmp/microsite'' ''.tmp/microsite/global.css''"
  "under ''.tmp/microsite'' ''.tmp/microsite/global.legacy.js''"
  "under ''.tmp/microsite'' ''.tmp/microsite/global.legacy.css''"
  "\<not> under ''.tmp/microsite'' ''dist/index.js''"
  "\<not> under ''.tmp/microsite'' ''dist/index.legacy.js''"
  "under ''dist'' ''dist/index.js''"
  "under ''dist'' ''dist/index.legacy.js''"
  by (simp_all add: under_def)

lemma stages_keep_rest:
  assumes "compile_stage env fs1 = Inr (fs2, log)"
    and "load_stage env fs2 = Inr (gs, hs, fs3, st, pages)"
    and "\<not> under ''.tmp/microsite'' p" and "p \<noteq> ''dist/index.js''" and "p \<noteq> ''dist/index.legacy.js''"
  shows "map_of (files fs3) p = map_of (files fs1) p"
proof -
  let ?P = "\<lambda>p. \<not> under ''.tmp/microsite'' p \<and> p \<noteq> ''dist/index.js'' \<and> p \<noteq> ''dist/index.legacy.js''"
  have "same_files ?P fs1 fs2"
    using assms(1) by (rule compile_stage_same_files) (simp_all add: under_staging_consts)
  moreover have "same_files ?P fs2 fs3"
    using assms(2) by (rule load_stage_same_files) simp_all
  ultimately have "same_files ?P fs1 fs3" by (rule same_files_trans)
  then show ?thesis using assms(3-5) by (intro same_files_map_of [where P = ?P]) simp_all
qed

lemma load_keeps_staging:
  assumes "load_stage env fs2 = Inr (gs, hs, fs3, st, pages)" and "under ''.tmp/microsite'' p"
  shows "map_of (files fs3) p = map_of (files fs2) p"
proof -
  have "same_files (under ''.tmp/microsite'') fs2 fs3"
    using assms(1) by (rule load_stage_same_files) (simp_all add: under_staging_consts)
  then show ?thesis using assms(2) by (rule same_files_map_of)
qed

lemma bad_page_rollup: "rollup bad_page_env = rollup good_env"
  by (simp add: bad_page_env_def good_env_def site_env_def)

lemma compile_bad_page: "compile_stage bad_page_env site_prepared = Inr (site_staged, [])"
  unfolding compile_stage_rollup_only [OF bad_page_rollup] by (rule compile_site)

lemma load_bad_page:
  "load_stage bad_page_env site_staged =
     Inr (''body{color:red}'', True, site_copied, site_styles, site_pages)"
  by (simp add: site_copied_def site_staged_def site_styles_def site_pages_def bad_page_env_def
      site_defs build_defs fs_defs path_defs cong: eval_cong)

lemma render_bad_page:
  "render_page bad_page_env True ''body{color:red}'' site_styles (''/blog/post'', ''blog/post.tsx'')
     = Inl (RenderError ''blog/post.tsx'')"
  "render_page bad_page_env True ''body{color:red}'' site_styles (''/index'', ''index.tsx'')
     = Inr (DOCTYPE @ ''<script/><style>body{color:red}</style><style>.a{}</style><body>index.tsx'' @ [CHR 0x0A])"
  by (simp_all add: bad_page_env_def site_styles_def site_defs build_defs)

lemma render_pages_bad_page:
  "render_pages bad_page_env True ''body{color:red}'' site_styles site_pages []
     = Inl (''/blog/post'', RenderError ''blog/post.tsx'')"
  by (simp add: site_pages_def render_bad_page)

lemma build_bad_page:
  "build bad_page_env site = Aborted site_copied
     [Log_text ''Error building /blog/post'', Log_error (RenderError ''blog/post.tsx'')]"
  unfolding build_Aborted_iff
  using prepare_site compile_bad_page load_bad_page render_pages_bad_page by fastforce

text \<open>
  C2: when the run reaches the rendering loop and the rendering of a page throws, the
  build returns from the \<^verbatim>\<open>catch\<close> clause at the first page that throws, in the order
  of the loop: it logs \<^verbatim>\<open>Error building\<close> with the name of that page and then the
  exception, after what the compilation stage logged. It returns with the file system as
  the loading of the pages left it, so no rendered page is written, not even one that
  was rendered before: no file whose name ends in \<^verbatim>\<open>.html\<close> has been created or changed
  since \<^verbatim>\<open>prepare\<close> returned, and outside the staging area only the two copies of the
  global script have.
\<close>

theorem render_failure_aborts:
  assumes "prepare fs = Inr fs1" and "compile_stage env fs1 = Inr (fs2, log)"
    and "load_stage env fs2 = Inr (gs, hs, fs3, st, pages)"
    and "page \<in> set pages" and "render_page env hs gs st page = Inl e"
  shows "(\<exists>ok q rest e'. pages = ok @ q # rest
           \<and> (\<forall>x \<in> set ok. \<exists>c. render_page env hs gs st x = Inr c)
           \<and> render_page env hs gs st q = Inl e'
           \<and> build env fs = Aborted fs3
                (log @ [Log_text (''Error building '' @ fst q), Log_error e']))
     \<and> (\<forall>p. endsWith p ''.html'' \<longrightarrow> map_of (files fs3) p = map_of (files fs1) p)
     \<and> (\<forall>p. \<not> under ''.tmp/microsite'' p \<and> p \<noteq> ''dist/index.js'' \<and> p \<noteq> ''dist/index.legacy.js''
           \<longrightarrow> map_of (files fs3) p = map_of (files fs1) p)"
proof (intro conjI allI impI)
  show "\<exists>ok q rest e'. pages = ok @ q # rest
           \<and> (\<forall>x \<in> set ok. \<exists>c. render_page env hs gs st x = Inr c)
           \<and> render_page env hs gs st q = Inl e'
           \<and> build env fs = Aborted fs3
                (log @ [Log_text (''Error building '' @ fst q), Log_error e'])"
    using assms by (rule render_failure_outcome)
next
  fix p assume "endsWith p ''.html''"
  with assms(2,3) show "map_of (files fs3) p = map_of (files fs1) p"
    by (rule stages_keep_html)
next
  fix p
  assume "\<not> under ''.tmp/microsite'' p \<and> p \<noteq> ''dist/index.js'' \<and> p \<noteq> ''dist/index.legacy.js''"
  then show "map_of (files fs3) p = map_of (files fs1) p"
    using stages_keep_rest [OF assms(2,3)] by blast
qed

theorem render_failure_aborts_witness:
  "prepare site = Inr site_prepared
   \<and> compile_stage bad_page_env site_prepared = Inr (site_staged, [])
   \<and> load_stage bad_page_env site_staged
       = Inr (''body{color:red}'', True, site_copied, site_styles, site_pages)
   \<and> site_pages = [(''/index'', ''index.tsx''), (''/blog/post'', ''blog/post.tsx'')]
   \<and> render_page bad_page_env True ''body{color:red}'' site_styles (''/index'', ''index.tsx'')
       = Inr (DOCTYPE @ ''<script/><style>body{color:red}</style><style>.a{}</style><body>index.tsx'' @ [CHR 0x0A])
   \<and> render_page bad_page_env True ''body{color:red}'' site_styles (''/blog/post'', ''blog/post.tsx'')
       = Inl (RenderError ''blog/post.tsx'')
   \<and> build bad_page_env site = Aborted site_copied
       [Log_text ''Error building /blog/post'', Log_error (RenderError ''blog/post.tsx'')]
   \<and> map_of (files site_copied) ''dist/index.html'' = None
   \<and> map_of (files site_copied) ''dist/blog/post.html'' = None
   \<and> map_of (files site_copied) ''dist/favicon.ico'' = Some ''ICO''"
proof -
  have in_pages: "(''/blog/post'', ''blog/post.tsx'') \<in> set site_pages"
    by (simp add: site_pages_def)
  note t = render_failure_aborts
    [OF prepare_site compile_bad_page load_bad_page in_pages render_bad_page(1)]
  have html: "endsWith ''dist/index.html'' ''.html''" "endsWith ''dist/blog/post.html'' ''.html''"
    by (simp_all add: endsWith_def suffix_to_prefix)
  from t have h: "\<forall>p. endsWith p ''.html'' \<longrightarrow>
      map_of (files site_copied) p = map_of (files site_prepared) p"
    by (rule conjunct1 [OF conjunct2])
  have "map_of (files site_copied) ''dist/index.html'' = None"
    using h html(1) by (simp add: site_prepared_def)
  moreover have "map_of (files site_copied) ''dist/blog/post.html'' = None"
    using h html(2) by (simp add: site_prepared_def)
  moreover have "map_of (files site_copied) ''dist/favicon.ico'' = Some ''ICO''"
    by (simp add: site_copied_def site_staged_def)
  moreover have "site_pages = [(''/index'', ''index.tsx''), (''/blog/post'', ''blog/post.tsx'')]"
    by (simp add: site_pages_def)
  ultimately show ?thesis
    using prepare_site compile_bad_page load_bad_page render_bad_page build_bad_page
    by (intro conjI)
qed

text \<open>
  C10: when the run reaches the rendering loop and the rendering of a page throws, the
  build returns from the \<^verbatim>\<open>catch\<close> clause with the file system as the loading of the
  pages left it: \<^verbatim>\<open>cleanup\<close> has not run. The staging directory is still there, with
  the files and the directories that the compilation stage left, the global script and
  stylesheet among them. Below the output directory every file that \<^verbatim>\<open>prepare\<close> left
  is unchanged, the paths of the two copies of the global script apart; these two hold
  the staged global scripts when the flag is set, and nothing was copied when it is not.
\<close>

theorem render_failure_keeps_staging:
  assumes "prepare fs = Inr fs1" and "compile_stage env fs1 = Inr (fs2, log)"
    and "load_stage env fs2 = Inr (gs, hs, fs3, st, pages)"
    and "page \<in> set pages" and "render_page env hs gs st page = Inl e"
  shows "(\<exists>name e'. build env fs = Aborted fs3
            (log @ [Log_text (''Error building '' @ name), Log_error e']))
     \<and> ''.tmp/microsite'' \<in> dirs fs3 \<and> dirs fs3 = dirs fs2
     \<and> is_file fs3 ''.tmp/microsite/global.js'' \<and> is_file fs3 ''.tmp/microsite/global.css''
     \<and> (\<forall>p. under ''.tmp/microsite'' p \<longrightarrow> map_of (files fs3) p = map_of (files fs2) p)
     \<and> (\<forall>p. under ''dist'' p \<and> p \<noteq> ''dist/index.js'' \<and> p \<noteq> ''dist/index.legacy.js''
           \<longrightarrow> map_of (files fs3) p = map_of (files fs1) p)
     \<and> (if hs then
           \<exists>a b. map_of (files fs2) ''.tmp/microsite/global.js'' = Some a
             \<and> map_of (files fs2) ''.tmp/microsite/global.legacy.js'' = Some b
             \<and> map_of (files fs3) ''dist/index.js'' = Some a
             \<and> map_of (files fs3) ''dist/index.legacy.js'' = Some b
         else fs3 = fs2)"
proof -
  from render_failure_outcome [OF assms] have 1: "\<exists>name e'. build env fs = Aborted fs3
      (log @ [Log_text (''Error building '' @ name), Log_error e'])" by blast
  have 2: "dirs fs3 = dirs fs2" using assms(3) by (rule load_stage_dirs)
  have 3: "''.tmp/microsite'' \<in> dirs fs3"
    using compile_stage_dirs(2) [OF assms(2)] 2 by simp
  have st: "map_of (files fs3) p = map_of (files fs2) p" if "under ''.tmp/microsite'' p" for p
    using assms(3) that by (rule load_keeps_staging)
  from load_stage_state(1,2) [OF assms(3)]
  have "map_of (files fs2) ''.tmp/microsite/global.css'' \<noteq> None"
    "map_of (files fs2) ''.tmp/microsite/global.js'' \<noteq> None"
    by (auto dest: readFile_Inr_is_file)
  then have 4: "is_file fs3 ''.tmp/microsite/global.js''" "is_file fs3 ''.tmp/microsite/global.css''"
    by (simp_all add: is_file_def st under_staging_consts)
  have 5: "\<forall>p. under ''.tmp/microsite'' p \<longrightarrow> map_of (files fs3) p = map_of (files fs2) p"
    using st by blast
  have 6: "\<forall>p. under ''dist'' p \<and> p \<noteq> ''dist/index.js'' \<and> p \<noteq> ''dist/index.legacy.js''
      \<longrightarrow> map_of (files fs3) p = map_of (files fs1) p"
    using stages_keep_rest [OF assms(2,3)] by simp
  have 7: "if hs then
           \<exists>a b. map_of (files fs2) ''.tmp/microsite/global.js'' = Some a
             \<and> map_of (files fs2) ''.tmp/microsite/global.legacy.js'' = Some b
             \<and> map_of (files fs3) ''dist/index.js'' = Some a
             \<and> map_of (files fs3) ''dist/index.legacy.js'' = Some b
         else fs3 = fs2"
  proof (cases hs)
    case False
    with load_stage_state(3) [OF assms(3)] show ?thesis by simp
  next
    case True
    with load_stage_state(3) [OF assms(3)] obtain a b where
      "map_of (files fs2) ''.tmp/microsite/global.js'' = Some a"
      "map_of (files fs2) ''.tmp/microsite/global.legacy.js'' = Some b"
      "fs3 = fs2\<lparr>files := AList.update ''dist/index.legacy.js'' b
                   (AList.update ''dist/index.js'' a (files fs2))\<rparr>" by auto
    with True show ?thesis by (simp add: update_conv')
  qed
  from 1 3 2 4 5 6 7 show ?thesis by (intro conjI)
qed

theorem render_failure_keeps_staging_witness:
  "build bad_page_env site = Aborted site_copied
       [Log_text ''Error building /blog/post'', Log_error (RenderError ''blog/post.tsx'')]
   \<and> ''.tmp/microsite'' \<in> dirs site_copied
   \<and> is_file site_copied ''.tmp/microsite/global.js''
   \<and> is_file site_copied ''.tmp/microsite/global.css''
   \<and> map_of (files site_copied) ''.tmp/microsite/pages/index.js'' = Some ''index.tsx''
   \<and> map_of (files site_copied) ''dist/favicon.ico'' = Some ''ICO''
   \<and> map_of (files site_copied) ''dist/index.js'' = Some ''go()''
   \<and> map_of (files site_copied) ''dist/index.legacy.js'' = Some ''go()go()''"
proof -
  have in_pages: "(''/blog/post'', ''blog/post.tsx'') \<in> set site_pages"
    by (simp add: site_pages_def)
  note t = render_failure_keeps_staging
    [OF prepare_site compile_bad_page load_bad_page in_pages render_bad_page(1)]
  from t have "''.tmp/microsite'' \<in> dirs site_copied"
    by (rule conjunct1 [OF conjunct2])
  moreover from t have "is_file site_copied ''.tmp/microsite/global.js''"
    by (rule conjunct1 [OF conjunct2 [OF conjunct2 [OF conjunct2]]])
  moreover from t have "is_file site_copied ''.tmp/microsite/global.css''"
    by (rule conjunct1 [OF conjunct2 [OF conjunct2 [OF conjunct2 [OF conjunct2]]]])
  moreover have "map_of (files site_copied) ''.tmp/microsite/pages/index.js'' = Some ''index.tsx''"
    "map_of (files site_copied) ''dist/favicon.ico'' = Some ''ICO''"
    "map_of (files site_copied) ''dist/index.js'' = Some ''go()''"
    "map_of (files site_copied) ''dist/index.legacy.js'' = Some ''go()go()''"
    by (simp_all add: site_copied_def site_staged_def)
  ultimately show ?thesis using build_bad_page by (intro conjI)
qed

section \<open>The copies of the global script\<close>












end
